theory Spec2Isabelle
  imports Main "HOL-Library.Word"
begin

section \<open>em-cli: command registration, tokenizer and dispatch\<close>

text \<open>
  A shallow embedding of \<^verbatim>\<open>em-cli.c\<close> / \<^verbatim>\<open>em-cli.h\<close>.

  \<^item> \<^verbatim>\<open>base_type\<close> (\<^verbatim>\<open>int32_t\<close>) and \<^verbatim>\<open>size_t\<close> are \<open>int\<close> and \<open>nat\<close>: every
    counter below is bounded by the length of a line or by the registry capacity, so no
    arithmetic wraps. The one mixed comparison of the source,
    \<^verbatim>\<open>g_command_count < CLI_MAX_COMMANDS\<close> (\<^verbatim>\<open>int32_t\<close> against \<^verbatim>\<open>10u\<close>), converts
    the count to unsigned; that conversion is written out as \<open>mod 2 ^ 32\<close>.
  \<^item> \<^verbatim>\<open>int8_t expected_parameter_count\<close> is an \<open>8 word\<close>, read with \<open>sint\<close>.
  \<^item> The memory a \<^verbatim>\<open>char *\<close> points to is a \<open>char list\<close>: the bytes from the pointer
    on. Reading at or after the end of the list yields NUL, so a list without a NUL byte
    is a C string with its terminator right after it, and a list with NUL bytes is a
    buffer whose C string ends at the first of them. A pointer that may be
    \<^verbatim>\<open>NULL\<close> is an \<open>option\<close>. A pointer into a line (\<^verbatim>\<open>p_command_string++\<close>) is
    the rest of the line from that position.
  \<^item> A write that runs past the end of the modelled region lengthens the list, so the
    length of the output region records the furthest byte written.
\<close>

subsection \<open>Constants\<close>

type_synonym base_type = int

definition CLI_FALSE :: base_type where "CLI_FALSE = 0"
definition CLI_TRUE :: base_type where "CLI_TRUE = 1"
definition CLI_PASS :: base_type where "CLI_PASS = 1"

definition CLI_MAX_COMMANDS :: nat where "CLI_MAX_COMMANDS = 10"
definition CLI_WRITE_BUFFER_SIZE :: nat where "CLI_WRITE_BUFFER_SIZE = 512"

abbreviation CHAR_SPACE :: char where "CHAR_SPACE \<equiv> CHR 0x20"
abbreviation CHAR_NULL :: char where "CHAR_NULL \<equiv> CHR 0x00"
abbreviation CHAR_CARRIAGE_RET :: char where "CHAR_CARRIAGE_RET \<equiv> CHR 0x0D"
abbreviation CHAR_NEWLINE :: char where "CHAR_NEWLINE \<equiv> CHR 0x0A"

definition CLI_MSG_INCORRECT_PARAMS :: string where
  "CLI_MSG_INCORRECT_PARAMS =
     ''Incorrect command parameter(s). Enter \"help\" to view commands.''
       @ [CHAR_CARRIAGE_RET, CHAR_NEWLINE, CHAR_CARRIAGE_RET, CHAR_NEWLINE]"

definition CLI_MSG_NOT_RECOGNIZED :: string where
  "CLI_MSG_NOT_RECOGNIZED =
     ''Command not recognized. Enter 'help' to view commands.''
       @ [CHAR_CARRIAGE_RET, CHAR_NEWLINE, CHAR_CARRIAGE_RET, CHAR_NEWLINE]"

definition CLI_MSG_HELP_HEADER :: string where
  "CLI_MSG_HELP_HEADER = ''Available commands:'' @ [CHAR_CARRIAGE_RET, CHAR_NEWLINE]"

definition CLI_MSG_MISSING_PARAM :: string where
  "CLI_MSG_MISSING_PARAM = ''Error: Missing parameter'' @ [CHAR_CARRIAGE_RET, CHAR_NEWLINE]"

subsection \<open>The C library functions the source calls\<close>

text \<open>\<^verbatim>\<open>*p\<close>: the byte at the pointer; the terminator once the list is used up.\<close>

definition deref :: "char list \<Rightarrow> char" where
  "deref p = (case p of [] \<Rightarrow> CHAR_NULL | c # _ \<Rightarrow> c)"

text \<open>\<^verbatim>\<open>p[i]\<close>.\<close>

definition peek :: "char list \<Rightarrow> nat \<Rightarrow> char" where
  "peek p i = (if i < length p then p ! i else CHAR_NULL)"

text \<open>The C string at a pointer: the bytes before the first NUL.\<close>

definition c_str :: "char list \<Rightarrow> string" where
  "c_str p = takeWhile (\<lambda>c. c \<noteq> CHAR_NULL) p"

definition strlen :: "char list \<Rightarrow> nat" where
  "strlen p = length (c_str p)"

text \<open>
  \<^verbatim>\<open>strncmp\<close>: compares at most \<open>n\<close> bytes as unsigned chars and stops after a NUL.
\<close>

fun strncmp :: "char list \<Rightarrow> char list \<Rightarrow> nat \<Rightarrow> int" where
  "strncmp s1 s2 0 = 0"
| "strncmp s1 s2 (Suc n) =
     (if deref s1 \<noteq> deref s2
      then int (of_char (deref s1) :: nat) - int (of_char (deref s2) :: nat)
      else if deref s1 = CHAR_NULL then 0
      else strncmp (tl s1) (tl s2) n)"

text \<open>
  Writing the bytes \<open>bs\<close> at offset \<open>off\<close> of a region. Bytes past the end of the
  region lengthen it (a gap, which no call below produces, is filled with NUL).
\<close>

definition store :: "char list \<Rightarrow> nat \<Rightarrow> char list \<Rightarrow> char list" where
  "store mem off bs =
     take off mem @ replicate (off - length mem) CHAR_NULL @ bs @ drop (off + length bs) mem"

text \<open>\<^verbatim>\<open>memset(dst, c, n)\<close> writes \<open>n\<close> bytes.\<close>

definition memset :: "char list \<Rightarrow> char \<Rightarrow> nat \<Rightarrow> char list" where
  "memset dst c n = store dst 0 (replicate n c)"

text \<open>
  \<^verbatim>\<open>strncpy(dst, src, n)\<close> writes exactly \<open>n\<close> bytes: the string, then NUL padding; a
  string of \<open>n\<close> or more bytes is cut and left without a terminator.
\<close>

definition strncpy :: "char list \<Rightarrow> char list \<Rightarrow> nat \<Rightarrow> char list" where
  "strncpy dst src n = store dst 0 (take n (c_str src) @ replicate (n - strlen src) CHAR_NULL)"

text \<open>
  \<^verbatim>\<open>strncat(dst, src, n)\<close> appends at most \<open>n\<close> bytes of the string at the
  terminator of \<open>dst\<close>, then a NUL.
\<close>

definition strncat :: "char list \<Rightarrow> char list \<Rightarrow> nat \<Rightarrow> char list" where
  "strncat dst src n = store dst (strlen dst) (take n (c_str src) @ [CHAR_NULL])"

text \<open>
  \<^verbatim>\<open>sprintf(dst, fmt, ...)\<close> with the formatted text already built: it writes the text
  and a NUL, whatever the size of \<open>dst\<close>.
\<close>

definition sprintf :: "char list \<Rightarrow> string \<Rightarrow> char list" where
  "sprintf dst formatted = store dst 0 (formatted @ [CHAR_NULL])"

subsection \<open>Tokenizer\<close>

text \<open>The \<^verbatim>\<open>while\<close> loop of \<^verbatim>\<open>cli_get_parameter_count\<close>.\<close>

fun count_loop :: "char list \<Rightarrow> base_type \<Rightarrow> base_type \<Rightarrow> base_type \<times> base_type" where
  "count_loop [] param_count is_prev_space = (param_count, is_prev_space)"
| "count_loop (c # p) param_count is_prev_space =
     (if c \<noteq> CHAR_NULL \<and> c \<noteq> CHAR_CARRIAGE_RET \<and> c \<noteq> CHAR_NEWLINE then
        (if c = CHAR_SPACE then
           (if is_prev_space \<noteq> CLI_PASS
            then count_loop p (param_count + 1) CLI_PASS
            else count_loop p param_count is_prev_space)
         else count_loop p param_count CLI_FALSE)
      else (param_count, is_prev_space))"

definition cli_get_parameter_count :: "char list option \<Rightarrow> base_type" where
  "cli_get_parameter_count p_command_string =
     (case p_command_string of
        None \<Rightarrow> 0
      | Some p \<Rightarrow>
          (case count_loop p 0 CLI_FALSE of
             (param_count, is_prev_space) \<Rightarrow>
               if is_prev_space = CLI_PASS then param_count - 1 else param_count))"

text \<open>The three inner loops of \<^verbatim>\<open>cli_get_parameter\<close>.\<close>

fun skip_word :: "char list \<Rightarrow> char list" where
  "skip_word [] = []"
| "skip_word (c # p) =
     (if c \<noteq> CHAR_NULL \<and> c \<noteq> CHAR_SPACE \<and> c \<noteq> CHAR_CARRIAGE_RET \<and> c \<noteq> CHAR_NEWLINE
      then skip_word p else c # p)"

fun skip_spaces :: "char list \<Rightarrow> char list" where
  "skip_spaces [] = []"
| "skip_spaces (c # p) =
     (if c \<noteq> CHAR_NULL \<and> c = CHAR_SPACE then skip_spaces p else c # p)"

fun measure_word :: "char list \<Rightarrow> base_type \<Rightarrow> base_type" where
  "measure_word [] len = len"
| "measure_word (c # p) len =
     (if c \<noteq> CHAR_NULL \<and> c \<noteq> CHAR_SPACE \<and> c \<noteq> CHAR_CARRIAGE_RET \<and> c \<noteq> CHAR_NEWLINE
      then measure_word p (len + 1) else len)"

text \<open>
  The outer loop. The result is the returned pointer and the value left in
  \<^verbatim>\<open>*p_parameter_length\<close>, which the caller has set to 0 before the loop.
\<close>

function get_parameter_loop ::
  "char list \<Rightarrow> base_type \<Rightarrow> base_type \<Rightarrow> char list option \<times> base_type" where
  "get_parameter_loop p wanted_parameter params_found =
     (if params_found < wanted_parameter then
        (let p1 = skip_word p; p2 = skip_spaces p1 in
         if deref p2 \<noteq> CHAR_NULL \<and> deref p2 \<noteq> CHAR_CARRIAGE_RET \<and> deref p2 \<noteq> CHAR_NEWLINE then
           (if params_found + 1 = wanted_parameter then
              (let len = measure_word p2 0 in
               (if len = 0 then None else Some p2, len))
            else get_parameter_loop p2 wanted_parameter (params_found + 1))
         else (None, 0))
      else (None, 0))"
  by pat_completeness auto
termination
  by (relation "measure (\<lambda>(p, wanted, found). nat (wanted - found))") auto

declare get_parameter_loop.simps [simp del]

text \<open>
  The third argument is the content of the out-parameter before the call
  (\<open>None\<close> for a \<^verbatim>\<open>NULL\<close> pointer), the second result its content after it.
\<close>

definition cli_get_parameter ::
  "char list option \<Rightarrow> base_type \<Rightarrow> base_type option \<Rightarrow> char list option \<times> base_type option" where
  "cli_get_parameter p_command_string wanted_parameter p_parameter_length =
     (case (p_command_string, p_parameter_length) of
        (Some p, Some _) \<Rightarrow>
          (case get_parameter_loop p wanted_parameter 0 of
             (p_return_param, len) \<Rightarrow> (p_return_param, Some len))
      | _ \<Rightarrow> (None, p_parameter_length))"

subsection \<open>Command descriptors and the registry\<close>

text \<open>
  A handler is a function pointer. The three built-in handlers are named; any other
  handler is a function of the program state outside the CLI (\<open>'e\<close>), the output region,
  its capacity and the line, returning its result, the region and the state after the
  call. \<open>Fn_null\<close> is the \<^verbatim>\<open>NULL\<close> pointer of a zero-initialised slot.
\<close>

datatype 'e interpreter =
    Fn_null
  | Fn_help
  | Fn_set
  | Fn_get
  | Fn_user "'e \<Rightarrow> char list \<Rightarrow> nat \<Rightarrow> char list \<Rightarrow> base_type \<times> char list \<times> 'e"

record 'e cli_command_definition_t =
  p_command :: "char list"
  p_help_string :: "char list"
  p_command_interpreter :: "'e interpreter"
  expected_parameter_count :: "8 word"

text \<open>
  The globals of \<^verbatim>\<open>em-cli.c\<close>, the function-static \<^verbatim>\<open>command_index\<close> of
  \<^verbatim>\<open>cli_process_command\<close>, and the rest of the program's state, which only handlers
  other than the built-in ones touch. \<open>g_commands_array\<close> has \<open>CLI_MAX_COMMANDS\<close> slots.
\<close>

record 'e cli_state =
  g_commands_array :: "'e cli_command_definition_t list"
  g_command_count :: int
  command_index :: int
  handler_state :: 'e

definition g_help_command :: "'e cli_command_definition_t" where
  "g_help_command =
     \<lparr>p_command = ''help'',
      p_help_string = [CHAR_CARRIAGE_RET, CHAR_NEWLINE] @ ''help:''
        @ [CHAR_CARRIAGE_RET, CHAR_NEWLINE] @ ''Lists all registered commands''
        @ [CHAR_CARRIAGE_RET, CHAR_NEWLINE],
      p_command_interpreter = Fn_help,
      expected_parameter_count = - 1\<rparr>"

definition g_set_command :: "'e cli_command_definition_t" where
  "g_set_command =
     \<lparr>p_command = ''set'',
      p_help_string = [CHAR_CARRIAGE_RET, CHAR_NEWLINE] @ ''set <key> <value>:''
        @ [CHAR_CARRIAGE_RET, CHAR_NEWLINE] @ ''Sets a key-value pair''
        @ [CHAR_CARRIAGE_RET, CHAR_NEWLINE],
      p_command_interpreter = Fn_set,
      expected_parameter_count = 2\<rparr>"

definition g_get_command :: "'e cli_command_definition_t" where
  "g_get_command =
     \<lparr>p_command = ''get'',
      p_help_string = [CHAR_CARRIAGE_RET, CHAR_NEWLINE] @ ''get <key>:''
        @ [CHAR_CARRIAGE_RET, CHAR_NEWLINE] @ ''Gets a value by key''
        @ [CHAR_CARRIAGE_RET, CHAR_NEWLINE],
      p_command_interpreter = Fn_get,
      expected_parameter_count = 1\<rparr>"

definition cli_register_command ::
  "'e cli_state \<Rightarrow> 'e cli_command_definition_t option \<Rightarrow> base_type \<times> 'e cli_state" where
  "cli_register_command s p_command_to_register =
     (case p_command_to_register of
        None \<Rightarrow> (CLI_FALSE, s)
      | Some c \<Rightarrow>
          if g_command_count s mod 2 ^ 32 < int CLI_MAX_COMMANDS
          then (CLI_TRUE,
                s\<lparr>g_commands_array := (g_commands_array s)[nat (g_command_count s) := c],
                  g_command_count := g_command_count s + 1\<rparr>)
          else (CLI_FALSE, s))"

text \<open>
  The state at program start: zero-initialised globals. The code reads no slot at or
  after \<open>g_command_count\<close>, so the empty strings standing for the \<^verbatim>\<open>NULL\<close> name and
  help text of an unused slot are never looked at.
\<close>

definition zero_slot :: "'e cli_command_definition_t" where
  "zero_slot =
     \<lparr>p_command = [], p_help_string = [], p_command_interpreter = Fn_null,
      expected_parameter_count = 0\<rparr>"

definition initial_state :: "'e \<Rightarrow> 'e cli_state" where
  "initial_state e =
     \<lparr>g_commands_array = replicate CLI_MAX_COMMANDS zero_slot,
      g_command_count = 0, command_index = 0, handler_state = e\<rparr>"

text \<open>The three registrations of \<^verbatim>\<open>cli_init\<close> in \<^verbatim>\<open>main.c\<close>.\<close>

definition cli_init :: "'e cli_state \<Rightarrow> 'e cli_state" where
  "cli_init s =
     (let s1 = snd (cli_register_command s (Some g_help_command));
          s2 = snd (cli_register_command s1 (Some g_set_command));
          s3 = snd (cli_register_command s2 (Some g_get_command))
      in s3)"

subsection \<open>Built-in handlers\<close>

text \<open>The \<^verbatim>\<open>for\<close> loop of \<^verbatim>\<open>cli_help_interpreter\<close>.\<close>

function help_loop ::
  "'e cli_command_definition_t list \<Rightarrow> int \<Rightarrow> nat \<Rightarrow> int \<Rightarrow> char list \<Rightarrow> nat \<Rightarrow> char list" where
  "help_loop arr cnt write_buffer_len cmd_index buf current_len =
     (if cmd_index < cnt then
        (if cmd_index = 0 then
           help_loop arr cnt write_buffer_len (cmd_index + 1) buf current_len
         else
           (let p_cmd_name = p_command (arr ! nat cmd_index);
                cmd_name_len = strlen p_cmd_name
            in if current_len + cmd_name_len + 5 < write_buffer_len then
                 (let b1 = strncat buf ''  '' (write_buffer_len - current_len - 1);
                      b2 = strncat b1 p_cmd_name (write_buffer_len - current_len - 1);
                      b3 = strncat b2 [CHAR_CARRIAGE_RET, CHAR_NEWLINE]
                             (write_buffer_len - current_len - 1)
                  in help_loop arr cnt write_buffer_len (cmd_index + 1) b3 (strlen b3))
               else help_loop arr cnt write_buffer_len (cmd_index + 1) buf current_len))
      else buf)"
  by pat_completeness auto
termination
  by (relation "measure (\<lambda>(arr, cnt, len, i, buf, cur). nat (cnt - i))") auto

declare help_loop.simps [simp del]

definition cli_help_interpreter ::
  "'e cli_state \<Rightarrow> char list option \<Rightarrow> nat \<Rightarrow> char list option \<Rightarrow> base_type \<times> char list option" where
  "cli_help_interpreter s p_write_buffer write_buffer_len p_command_string =
     (case p_write_buffer of
        None \<Rightarrow> (CLI_FALSE, None)
      | Some buf \<Rightarrow>
          (let b0 = memset buf CHAR_NULL write_buffer_len;
               b1 = strncpy b0 CLI_MSG_HELP_HEADER write_buffer_len;
               current_len = strlen b1
           in (CLI_FALSE,
               Some (help_loop (g_commands_array s) (g_command_count s) write_buffer_len 0
                       b1 current_len))))"

text \<open>
  \<^verbatim>\<open>strncpy(param, p_param, param_len); param[param_len] = CHAR_NULL;\<close> on a local
  \<^verbatim>\<open>char[50]\<close>. Every byte read from the array afterwards was written by these two
  statements, so its content before them does not matter; it is taken as NUL bytes.
\<close>

definition stage_param :: "char list \<Rightarrow> base_type \<Rightarrow> char list" where
  "stage_param p_param param_len =
     (strncpy (replicate 50 CHAR_NULL) p_param (nat param_len))[nat param_len := CHAR_NULL]"

definition cli_set_interpreter ::
  "char list option \<Rightarrow> nat \<Rightarrow> char list option \<Rightarrow> base_type \<times> char list option" where
  "cli_set_interpreter p_write_buffer write_buffer_len p_command_string =
     (case (p_write_buffer, p_command_string) of
        (Some buf, Some line) \<Rightarrow>
          (let b0 = memset buf CHAR_NULL write_buffer_len;
               missing = (CLI_FALSE, Some (strncpy b0 CLI_MSG_MISSING_PARAM write_buffer_len))
           in case cli_get_parameter (Some line) 1 (Some 0) of
                (Some p_param1, Some param_len1) \<Rightarrow>
                  if param_len1 < 50 then
                    (let param1 = stage_param p_param1 param_len1
                     in case cli_get_parameter (Some line) 2 (Some param_len1) of
                          (Some p_param2, Some param_len2) \<Rightarrow>
                            if param_len2 < 50 then
                              (let param2 = stage_param p_param2 param_len2
                               in (CLI_FALSE,
                                   Some (sprintf b0
                                     (''Set '' @ c_str param1 @ '' = '' @ c_str param2
                                        @ [CHAR_CARRIAGE_RET, CHAR_NEWLINE]))))
                            else missing
                        | _ \<Rightarrow> missing)
                  else missing
              | _ \<Rightarrow> missing)
      | _ \<Rightarrow> (CLI_FALSE, p_write_buffer))"

definition cli_get_interpreter ::
  "char list option \<Rightarrow> nat \<Rightarrow> char list option \<Rightarrow> base_type \<times> char list option" where
  "cli_get_interpreter p_write_buffer write_buffer_len p_command_string =
     (case (p_write_buffer, p_command_string) of
        (Some buf, Some line) \<Rightarrow>
          (let b0 = memset buf CHAR_NULL write_buffer_len;
               missing = (CLI_FALSE, Some (strncpy b0 CLI_MSG_MISSING_PARAM write_buffer_len))
           in case cli_get_parameter (Some line) 1 (Some 0) of
                (Some p_param, Some param_len) \<Rightarrow>
                  if param_len < 50 then
                    (let param = stage_param p_param param_len
                     in (CLI_FALSE,
                         Some (sprintf b0
                           (''Get '' @ c_str param @ '': [value not implemented]''
                              @ [CHAR_CARRIAGE_RET, CHAR_NEWLINE]))))
                  else missing
              | _ \<Rightarrow> missing)
      | _ \<Rightarrow> (CLI_FALSE, p_write_buffer))"

subsection \<open>Dispatcher\<close>

text \<open>
  The call through \<^verbatim>\<open>p_command_interpreter\<close>. The dispatcher has checked both pointers
  before it calls. A call through \<^verbatim>\<open>NULL\<close> has no defined behaviour in C and no
  registered descriptor of the program has one; the model leaves the region as it is.
\<close>

definition call_interpreter ::
  "'e cli_state \<Rightarrow> 'e interpreter \<Rightarrow> char list \<Rightarrow> nat \<Rightarrow> char list
     \<Rightarrow> base_type \<times> char list option \<times> 'e" where
  "call_interpreter s f buf write_buffer_len line =
     (case f of
        Fn_null \<Rightarrow> (CLI_FALSE, Some buf, handler_state s)
      | Fn_help \<Rightarrow>
          (case cli_help_interpreter s (Some buf) write_buffer_len (Some line) of
             (r, b) \<Rightarrow> (r, b, handler_state s))
      | Fn_set \<Rightarrow>
          (case cli_set_interpreter (Some buf) write_buffer_len (Some line) of
             (r, b) \<Rightarrow> (r, b, handler_state s))
      | Fn_get \<Rightarrow>
          (case cli_get_interpreter (Some buf) write_buffer_len (Some line) of
             (r, b) \<Rightarrow> (r, b, handler_state s))
      | Fn_user h \<Rightarrow>
          (case h (handler_state s) buf write_buffer_len line of
             (r, b, e) \<Rightarrow> (r, Some b, e)))"

text \<open>
  The search loop of \<^verbatim>\<open>cli_process_command\<close>, from \<open>command_index\<close> on. It returns
  \<open>command_index\<close> and \<open>is_processed\<close> as the loop leaves them.
\<close>

function scan_commands ::
  "'e cli_command_definition_t list \<Rightarrow> int \<Rightarrow> char list \<Rightarrow> int \<Rightarrow> int \<times> base_type" where
  "scan_commands arr cnt p_command_input idx =
     (if idx < cnt then
        (let p_registered_command = p_command (arr ! nat idx);
             command_length = strlen p_registered_command
         in if (peek p_command_input command_length = CHAR_SPACE
                \<or> peek p_command_input command_length = CHAR_NULL
                \<or> peek p_command_input command_length = CHAR_CARRIAGE_RET
                \<or> peek p_command_input command_length = CHAR_NEWLINE)
               \<and> strncmp p_command_input p_registered_command command_length = 0
            then
              (if 0 \<le> sint (expected_parameter_count (arr ! nat idx))
                  \<and> cli_get_parameter_count (Some p_command_input)
                      \<noteq> sint (expected_parameter_count (arr ! nat idx))
               then (idx, CLI_FALSE) else (idx, CLI_PASS))
            else scan_commands arr cnt p_command_input (idx + 1))
      else (idx, CLI_PASS))"
  by pat_completeness auto
termination
  by (relation "measure (\<lambda>(arr, cnt, line, i). nat (cnt - i))") auto

declare scan_commands.simps [simp del]

text \<open>
  The result is the returned value, the output region after the call and the state
  after it.
\<close>

definition cli_process_command ::
  "'e cli_state \<Rightarrow> char list option \<Rightarrow> char list option \<Rightarrow> nat
     \<Rightarrow> base_type \<times> char list option \<times> 'e cli_state" where
  "cli_process_command s p_command_input p_write_buffer write_buffer_len =
     (case (p_command_input, p_write_buffer) of
        (Some line, Some buf) \<Rightarrow>
          (case (if command_index s = 0
                 then scan_commands (g_commands_array s) (g_command_count s) line 0
                 else (command_index s, CLI_PASS)) of
             (idx, is_processed) \<Rightarrow>
               if is_processed = CLI_FALSE then
                 (is_processed,
                  Some (strncpy buf CLI_MSG_INCORRECT_PARAMS write_buffer_len),
                  s\<lparr>command_index := idx\<rparr>)
               else if is_processed = CLI_PASS \<and> idx < g_command_count s then
                 (case call_interpreter s
                         (p_command_interpreter (g_commands_array s ! nat idx))
                         buf write_buffer_len line of
                    (r, b, e) \<Rightarrow>
                      (r, b,
                       s\<lparr>command_index := (if r = CLI_FALSE then 0 else idx),
                         handler_state := e\<rparr>))
               else
                 (CLI_FALSE,
                  Some (strncpy buf CLI_MSG_NOT_RECOGNIZED write_buffer_len),
                  s\<lparr>command_index := idx\<rparr>))
      | _ \<Rightarrow> (CLI_FALSE, p_write_buffer, s))"

section \<open>The specification's notions\<close>

text \<open>
  The specification speaks of the words of a line and of a registry entry matching a
  line. These definitions follow its wording; the theorems below compare the code with
  them.
\<close>

text \<open>A line ends at NUL, carriage return or line feed; words are separated by spaces.\<close>

definition is_line_end :: "char \<Rightarrow> bool" where
  "is_line_end c = (c = CHAR_NULL \<or> c = CHAR_CARRIAGE_RET \<or> c = CHAR_NEWLINE)"

definition is_word_char :: "char \<Rightarrow> bool" where
  "is_word_char c = (c \<noteq> CHAR_SPACE \<and> \<not> is_line_end c)"

text \<open>
  The words of a line, in order, each given by the position at which it starts (the
  rest of the line from its first character).
\<close>

function spec_word_starts :: "char list \<Rightarrow> char list list" where
  "spec_word_starts [] = []"
| "spec_word_starts (c # p) =
     (if is_line_end c then []
      else if c = CHAR_SPACE then spec_word_starts p
      else (c # p) # spec_word_starts (dropWhile is_word_char p))"
  by pat_completeness auto
termination
  by (relation "measure length") (auto simp: le_imp_less_Suc length_dropWhile_le)

definition spec_word_at :: "char list \<Rightarrow> string" where
  "spec_word_at p = takeWhile is_word_char p"

definition spec_words :: "char list \<Rightarrow> string list" where
  "spec_words line = map spec_word_at (spec_word_starts line)"

text \<open>
  A registry entry matches a line when the line's prefix equals the entry's name and
  the character right after that prefix is a space, NUL, carriage return or line feed.
\<close>

definition spec_matches :: "string \<Rightarrow> char list \<Rightarrow> bool" where
  "spec_matches name line =
     (take (length name) line = name
      \<and> peek line (length name) \<in> {CHAR_SPACE, CHAR_NULL, CHAR_CARRIAGE_RET, CHAR_NEWLINE})"

text \<open>The first of the \<open>cnt\<close> registered entries, in registration order, that matches.\<close>

definition spec_first_match ::
  "'e cli_command_definition_t list \<Rightarrow> nat \<Rightarrow> char list \<Rightarrow> nat option" where
  "spec_first_match arr cnt line =
     List.find (\<lambda>i. spec_matches (c_str (p_command (arr ! i))) line) [0..<cnt]"

text \<open>
  A command's declared arity agrees with a line when it is negative (variable) or equals
  the tokenizer's parameter count of the whole line.
\<close>

definition arity_ok :: "'e cli_command_definition_t \<Rightarrow> char list \<Rightarrow> bool" where
  "arity_ok e line =
     (sint (expected_parameter_count e) < 0
      \<or> cli_get_parameter_count (Some line) = sint (expected_parameter_count e))"

section \<open>Example states\<close>

text \<open>The program after \<^verbatim>\<open>cli_init\<close>: help, set and get in slots 0, 1 and 2.\<close>

definition booted :: "unit cli_state" where
  "booted = cli_init (initial_state ())"

text \<open>
  A registry whose slot 0 holds a command with a handler that always reports more output
  pending and leaves the output region as it is.
\<close>

definition stream_command :: "unit cli_command_definition_t" where
  "stream_command =
     \<lparr>p_command = ''stream'', p_help_string = [],
      p_command_interpreter = Fn_user (\<lambda>e buf len line. (CLI_TRUE, buf, e)),
      expected_parameter_count = - 1\<rparr>"

definition stream_first :: "unit cli_state" where
  "stream_first = snd (cli_register_command (initial_state ()) (Some stream_command))"

section \<open>C strings and the library functions\<close>

lemma deref_Nil [simp]: "deref [] = CHAR_NULL"
  by (simp add: deref_def)

lemma deref_Cons [simp]: "deref (c # p) = c"
  by (simp add: deref_def)

lemma c_str_Nil [simp]: "c_str [] = []"
  by (simp add: c_str_def)

lemma c_str_Cons:
  "c_str (c # p) = (if c = CHAR_NULL then [] else c # c_str p)"
  by (simp add: c_str_def)

lemma of_char_diff_zero_iff:
  "int (of_char c :: nat) - int (of_char d :: nat) = 0 \<longleftrightarrow> c = d"
  by simp

lemma strncmp_Suc_zero_iff:
  "strncmp a b (Suc n) = 0 \<longleftrightarrow>
     deref a = deref b \<and> (deref a = CHAR_NULL \<or> strncmp (tl a) (tl b) n = 0)"
  by (simp del: of_nat_of_char add: of_char_diff_zero_iff)

lemma strncmp_zero_iff:
  "strncmp a b n = 0 \<longleftrightarrow> take n (c_str a) = take n (c_str b)"
proof (induction n arbitrary: a b)
  case 0
  then show ?case by simp
next
  case (Suc n)
  show ?case
  proof (cases a)
    case Nil
    then show ?thesis
      unfolding strncmp_Suc_zero_iff by (cases b) (auto simp: deref_def c_str_Cons)
  next
    case ca: (Cons x a')
    show ?thesis
    proof (cases b)
      case Nil
      with ca show ?thesis
        unfolding strncmp_Suc_zero_iff by (auto simp: deref_def c_str_Cons)
    next
      case (Cons y b')
      with ca Suc.IH [of a' b'] show ?thesis
        unfolding strncmp_Suc_zero_iff by (auto simp: deref_def c_str_Cons)
    qed
  qed
qed

lemma c_str_no_nul: "CHAR_NULL \<notin> set (c_str p)"
  unfolding c_str_def by (induction p) auto

lemma take_c_str_eq_iff:
  assumes "CHAR_NULL \<notin> set w"
  shows "take (length w) (c_str a) = w \<longleftrightarrow> take (length w) a = w"
  using assms
proof (induction w arbitrary: a)
  case Nil
  then show ?case by simp
next
  case (Cons x w)
  then show ?case
    by (cases a) (auto simp: c_str_Cons)
qed

lemma c_str_append_nul: "CHAR_NULL \<notin> set w \<Longrightarrow> c_str (w @ CHAR_NULL # rest) = w"
  by (induction w) (auto simp: c_str_Cons)

lemma c_str_id: "CHAR_NULL \<notin> set w \<Longrightarrow> c_str w = w"
  by (induction w) (auto simp: c_str_Cons)

lemma store_0: "store mem 0 bs = bs @ drop (length bs) mem"
  by (simp add: store_def)

lemma strncpy_eq:
  "strncpy dst src n =
     take n (c_str src @ replicate n CHAR_NULL) @ drop n dst"
proof -
  have "min (strlen src) n + (n - strlen src) = n" by arith
  then show ?thesis
    by (simp add: strncpy_def store_0 strlen_def)
qed

lemma strncpy_length: "length (strncpy dst src n) = max (length dst) n"
  by (simp add: strncpy_eq)

lemma strncpy_take:
  "take n (strncpy dst src n) = take n (c_str src @ replicate n CHAR_NULL)"
  by (simp add: strncpy_eq)

lemma strncpy_drop: "drop n (strncpy dst src n) = drop n dst"
  by (simp add: strncpy_eq)

lemma strncpy_c_str:
  assumes "strlen src < n"
  shows "c_str (strncpy dst src n) = c_str src"
proof -
  from assms obtain k where k: "n - strlen src = Suc k"
    by (cases "n - strlen src") auto
  have "take n (c_str src @ replicate n CHAR_NULL)
          = c_str src @ CHAR_NULL # replicate k CHAR_NULL"
    using assms k by (simp add: strlen_def)
  then have "strncpy dst src n = c_str src @ CHAR_NULL # (replicate k CHAR_NULL @ drop n dst)"
    by (simp add: strncpy_eq)
  then show ?thesis
    by (simp add: c_str_append_nul c_str_no_nul)
qed

lemma msg_no_nul [simp]:
  "c_str CLI_MSG_INCORRECT_PARAMS = CLI_MSG_INCORRECT_PARAMS"
  "c_str CLI_MSG_NOT_RECOGNIZED = CLI_MSG_NOT_RECOGNIZED"
  "c_str CLI_MSG_MISSING_PARAM = CLI_MSG_MISSING_PARAM"
  "c_str CLI_MSG_HELP_HEADER = CLI_MSG_HELP_HEADER"
  by (simp_all add: c_str_def CLI_MSG_INCORRECT_PARAMS_def CLI_MSG_NOT_RECOGNIZED_def
      CLI_MSG_MISSING_PARAM_def CLI_MSG_HELP_HEADER_def)

lemma msg_length [simp]:
  "length CLI_MSG_INCORRECT_PARAMS = 66"
  "length CLI_MSG_NOT_RECOGNIZED = 58"
  "length CLI_MSG_MISSING_PARAM = 26"
  "length CLI_MSG_HELP_HEADER = 21"
  by (simp_all add: CLI_MSG_INCORRECT_PARAMS_def CLI_MSG_NOT_RECOGNIZED_def
      CLI_MSG_MISSING_PARAM_def CLI_MSG_HELP_HEADER_def)

lemma strncpy_msg:
  assumes "c_str msg = msg"
  shows "take len (strncpy buf msg len) = take len (msg @ replicate len CHAR_NULL)
     \<and> drop len (strncpy buf msg len) = drop len buf
     \<and> length (strncpy buf msg len) = max (length buf) len
     \<and> (length msg < len \<longrightarrow> c_str (strncpy buf msg len) = msg)"
  using assms strncpy_c_str [of msg len buf] strncpy_take [of len buf msg]
  by (simp add: strncpy_drop strncpy_length strlen_def)

section \<open>Tokenizer\<close>

subsection \<open>The parameter count is never negative\<close>

lemma count_loop_inv:
  "count_loop p pc ps = (pc', ps') \<Longrightarrow> 0 \<le> pc \<Longrightarrow> (ps = CLI_PASS \<longrightarrow> 1 \<le> pc)
     \<Longrightarrow> 0 \<le> pc' \<and> (ps' = CLI_PASS \<longrightarrow> 1 \<le> pc')"
proof (induction p arbitrary: pc ps)
  case Nil
  then show ?case by simp
next
  case (Cons c p)
  then show ?case
    by (auto simp: CLI_FALSE_def CLI_PASS_def split: if_splits)
qed

text \<open>
  The count never exceeds the length of the line, which is why \<^verbatim>\<open>param_count++\<close>
  cannot overflow \<^verbatim>\<open>int32_t\<close> on a line that fits in memory.
\<close>

lemma count_loop_upper:
  "count_loop p pc ps = (pc', ps') \<Longrightarrow> pc' \<le> pc + int (length p)"
proof (induction p arbitrary: pc ps)
  case Nil
  then show ?case by simp
next
  case (Cons c p)
  then show ?case
    by (fastforce split: if_splits)
qed

text \<open>
  C10. \<^verbatim>\<open>cli_get_parameter_count\<close> never returns a negative value: the decrement for a
  line that ends in spaces only happens when \<open>is_prev_space\<close> is set, and then the last
  run of spaces has already been counted. A \<^verbatim>\<open>NULL\<close> line gives 0. So the arity
  comparison of the dispatcher never sees a negative count.
\<close>

theorem cli_get_parameter_count_nonneg:
  "0 \<le> cli_get_parameter_count p \<and> cli_get_parameter_count None = 0"
proof -
  have "0 \<le> cli_get_parameter_count p"
  proof (cases p)
    case None
    then show ?thesis by (simp add: cli_get_parameter_count_def)
  next
    case (Some line)
    obtain pc ps where r: "count_loop line 0 CLI_FALSE = (pc, ps)"
      by (cases "count_loop line 0 CLI_FALSE")
    from count_loop_inv [OF r] have "0 \<le> pc \<and> (ps = CLI_PASS \<longrightarrow> 1 \<le> pc)"
      by (simp add: CLI_FALSE_def CLI_PASS_def)
    with Some r show ?thesis
      by (auto simp: cli_get_parameter_count_def)
  qed
  then show ?thesis by (simp add: cli_get_parameter_count_def)
qed

subsection \<open>The parameter count and the words of the line\<close>

lemma is_word_char_simps [simp]:
  "\<not> is_word_char CHAR_NULL" "\<not> is_word_char CHAR_SPACE"
  "\<not> is_word_char CHAR_CARRIAGE_RET" "\<not> is_word_char CHAR_NEWLINE"
  by (simp_all add: is_word_char_def is_line_end_def)

lemma is_word_char_iff:
  "is_word_char c \<longleftrightarrow>
     c \<noteq> CHAR_NULL \<and> c \<noteq> CHAR_SPACE \<and> c \<noteq> CHAR_CARRIAGE_RET \<and> c \<noteq> CHAR_NEWLINE"
  by (auto simp: is_word_char_def is_line_end_def)

lemma spec_word_starts_word:
  "is_word_char c \<Longrightarrow>
     spec_word_starts (c # p) = (c # p) # spec_word_starts (dropWhile is_word_char p)"
  by (auto simp: is_word_char_def)

lemma spec_word_starts_space [simp]:
  "spec_word_starts (CHAR_SPACE # p) = spec_word_starts p"
  by (simp add: is_line_end_def)

lemma spec_word_starts_end:
  "\<not> is_word_char c \<Longrightarrow> c \<noteq> CHAR_SPACE \<Longrightarrow> spec_word_starts (c # p) = []"
  by (simp add: is_word_char_def)

lemma length_spec_word_starts_dropWhile:
  "length (spec_word_starts p) =
     length (spec_word_starts (dropWhile is_word_char p))
       + (if is_word_char (deref p) then 1 else 0)"
proof (cases p)
  case Nil
  then show ?thesis by simp
next
  case (Cons a l)
  then show ?thesis
    by (cases "is_word_char a") (simp_all add: spec_word_starts_word del: spec_word_starts.simps)
qed

lemma count_loop_words:
  "(case count_loop p pc ps of
      (pc', ps') \<Rightarrow> if ps' = CLI_PASS then pc' - 1 else pc')
   = pc + int (length (spec_word_starts p))
       - (if ps = CLI_PASS \<or> is_word_char (deref p) then 1 else 0)"
proof (induction p arbitrary: pc ps)
  case Nil
  then show ?case by simp
next
  case (Cons c p)
  consider (space) "c = CHAR_SPACE" | (word) "is_word_char c"
    | (stop) "\<not> is_word_char c" "c \<noteq> CHAR_SPACE"
    by blast
  then show ?case
  proof cases
    case space
    then show ?thesis
      using Cons.IH [of "pc + 1" CLI_PASS] Cons.IH [of pc CLI_PASS]
      by (cases "ps = CLI_PASS") (simp_all del: spec_word_starts.simps)
  next
    case word
    then have c: "c \<noteq> CHAR_NULL" "c \<noteq> CHAR_SPACE" "c \<noteq> CHAR_CARRIAGE_RET" "c \<noteq> CHAR_NEWLINE"
      by (simp_all add: is_word_char_iff)
    show ?thesis
      using word c Cons.IH [of pc CLI_FALSE] length_spec_word_starts_dropWhile [of p]
      by (simp add: spec_word_starts_word CLI_FALSE_def CLI_PASS_def
          del: spec_word_starts.simps)
  next
    case stop
    then have "c = CHAR_NULL \<or> c = CHAR_CARRIAGE_RET \<or> c = CHAR_NEWLINE"
      by (auto simp: is_word_char_iff)
    with stop show ?thesis
      by (auto simp: spec_word_starts_end simp del: spec_word_starts.simps)
  qed
qed

text \<open>
  C7 (as amended). \<^verbatim>\<open>cli_get_parameter_count\<close> looks at the line up to the first NUL,
  carriage return or line feed, takes a run of spaces as one delimiter and does not count
  an empty word after trailing spaces. On a line that does not begin with a space it
  returns the number of space-delimited words after the first one; on a line that begins
  with a space it returns the number of all words, the first one included.
\<close>

theorem cli_get_parameter_count_words:
  "cli_get_parameter_count (Some line) =
     (if deref line = CHAR_SPACE then int (length (spec_words line))
      else int (length (tl (spec_words line))))"
proof -
  have "cli_get_parameter_count (Some line) =
      int (length (spec_word_starts line)) - (if is_word_char (deref line) then 1 else 0)"
    using count_loop_words [of line 0 CLI_FALSE]
    by (simp add: cli_get_parameter_count_def CLI_FALSE_def CLI_PASS_def)
  moreover have "\<not> is_word_char (deref line) \<Longrightarrow> deref line \<noteq> CHAR_SPACE
      \<Longrightarrow> spec_word_starts line = []"
    by (cases line) (simp_all add: spec_word_starts_end del: spec_word_starts.simps(2))
  moreover have "is_word_char (deref line) \<Longrightarrow> spec_word_starts line \<noteq> []"
    by (cases line) (simp_all add: spec_word_starts_word del: spec_word_starts.simps(2))
  ultimately show ?thesis
    by (cases "spec_word_starts line") (auto simp: spec_words_def)
qed

theorem cli_get_parameter_count_words_witness:
  "cli_get_parameter_count (Some ''cmd a b'') = 2
   \<and> cli_get_parameter_count (Some ''cmd'') = 0
   \<and> cli_get_parameter_count (Some ''cmd   '') = 0
   \<and> spec_words ''cmd a b'' = [''cmd'', ''a'', ''b'']"
  using cli_get_parameter_count_words [of "''cmd a b''"]
    cli_get_parameter_count_words [of "''cmd''"]
    cli_get_parameter_count_words [of "''cmd   ''"]
  by (simp add: spec_words_def spec_word_at_def is_line_end_def is_word_char_def)

text \<open>
  The claim as first stated fails on a line that begins with a space: \<open>'' cmd''\<close> has
  the single word \<open>cmd\<close> and no word after it, yet the count is 1.
\<close>

theorem cli_get_parameter_count_leading_space:
  "cli_get_parameter_count (Some '' cmd'') = 1 \<and> spec_words '' cmd'' = [''cmd'']"
  by (simp add: cli_get_parameter_count_def spec_words_def spec_word_at_def is_line_end_def
      is_word_char_def CLI_FALSE_def CLI_PASS_def)

subsection \<open>Extracting a parameter\<close>

lemma skip_word_dropWhile: "skip_word p = dropWhile is_word_char p"
  by (induction p) (auto simp: is_word_char_iff)

lemma skip_spaces_dropWhile: "skip_spaces p = dropWhile (\<lambda>c. c = CHAR_SPACE) p"
  by (induction p) auto

lemma measure_word_length: "measure_word p len = len + int (length (spec_word_at p))"
  by (induction p arbitrary: len) (auto simp: spec_word_at_def is_word_char_iff)

lemma spec_word_starts_skip_spaces [simp]:
  "spec_word_starts (skip_spaces p) = spec_word_starts p"
  by (induction p) (simp_all del: spec_word_starts.simps(2))

lemma deref_skip_spaces: "deref (skip_spaces p) \<noteq> CHAR_SPACE"
  by (induction p) auto

lemma spec_word_starts_deref:
  "spec_word_starts p =
     (if is_word_char (deref p) then p # spec_word_starts (skip_word p)
      else if deref p = CHAR_SPACE then spec_word_starts (tl p) else [])"
proof (cases p)
  case Nil
  then show ?thesis by simp
next
  case (Cons c l)
  then show ?thesis
    by (cases "is_word_char c")
       (auto simp: spec_word_starts_word spec_word_starts_end skip_word_dropWhile
          simp del: spec_word_starts.simps)
qed

lemma get_parameter_loop_words:
  "found < wanted \<Longrightarrow>
   get_parameter_loop p wanted found =
     (let ws = spec_word_starts (skip_word p); k = nat (wanted - found - 1)
      in if k < length ws then (Some (ws ! k), int (length (spec_word_at (ws ! k))))
         else (None, 0))"
proof (induction "nat (wanted - found - 1)" arbitrary: p found)
  case 0
  then have w: "found + 1 = wanted" by simp
  let ?p2 = "skip_spaces (skip_word p)"
  show ?case
  proof (cases "is_word_char (deref ?p2)")
    case True
    then have ws: "spec_word_starts (skip_word p) = ?p2 # spec_word_starts (skip_word ?p2)"
      using spec_word_starts_deref [of ?p2] by simp
    have "spec_word_at ?p2 \<noteq> []"
      using True by (cases ?p2) (simp_all add: spec_word_at_def)
    then have "measure_word ?p2 0 \<noteq> 0"
      by (simp add: measure_word_length)
    with True w ws 0 show ?thesis
      by (subst get_parameter_loop.simps)
         (simp add: Let_def is_word_char_iff measure_word_length)
  next
    case False
    then have ws: "spec_word_starts (skip_word p) = []"
      using spec_word_starts_deref [of ?p2] deref_skip_spaces [of "skip_word p"] by simp
    from False deref_skip_spaces [of "skip_word p"]
    have "deref ?p2 = CHAR_NULL \<or> deref ?p2 = CHAR_CARRIAGE_RET \<or> deref ?p2 = CHAR_NEWLINE"
      by (auto simp: is_word_char_iff)
    with w ws 0 show ?thesis
      by (subst get_parameter_loop.simps) (auto simp: Let_def)
  qed
next
  case (Suc k)
  then have w: "found + 1 < wanted" and k: "k = nat (wanted - (found + 1) - 1)" by simp_all
  let ?p2 = "skip_spaces (skip_word p)"
  show ?case
  proof (cases "is_word_char (deref ?p2)")
    case True
    then have ws: "spec_word_starts (skip_word p) = ?p2 # spec_word_starts (skip_word ?p2)"
      using spec_word_starts_deref [of ?p2] by simp
    have "get_parameter_loop p wanted found = get_parameter_loop ?p2 wanted (found + 1)"
      using True w
      by (subst get_parameter_loop.simps) (simp add: Let_def is_word_char_iff)
    also have "\<dots> =
      (let ws = spec_word_starts (skip_word ?p2)
       in if k < length ws then (Some (ws ! k), int (length (spec_word_at (ws ! k))))
          else (None, 0))"
      using Suc.hyps(1) [OF k w] k by (simp add: Let_def)
    finally show ?thesis
      using Suc.hyps(2) [symmetric] ws by (simp add: Let_def)
  next
    case False
    then have ws: "spec_word_starts (skip_word p) = []"
      using spec_word_starts_deref [of ?p2] deref_skip_spaces [of "skip_word p"] by simp
    from False deref_skip_spaces [of "skip_word p"]
    have "deref ?p2 = CHAR_NULL \<or> deref ?p2 = CHAR_CARRIAGE_RET \<or> deref ?p2 = CHAR_NEWLINE"
      by (auto simp: is_word_char_iff)
    with w ws show ?thesis
      by (subst get_parameter_loop.simps) (auto simp: Let_def)
  qed
qed

lemma get_parameter_loop_nonpos:
  "wanted \<le> found \<Longrightarrow> get_parameter_loop p wanted found = (None, 0)"
  by (subst get_parameter_loop.simps) simp

lemma spec_word_starts_suffix:
  "q \<in> set (spec_word_starts p) \<Longrightarrow> \<exists>pre. p = pre @ q"
proof (induction p rule: spec_word_starts.induct)
  case 1
  then show ?case by simp
next
  case (2 c p)
  show ?case
  proof (cases "is_word_char c")
    case True
    with 2 have "q = c # p \<or> q \<in> set (spec_word_starts (dropWhile is_word_char p))"
      by (simp add: spec_word_starts_word del: spec_word_starts.simps)
    then show ?thesis
    proof
      assume "q = c # p"
      then show ?thesis by simp
    next
      assume q: "q \<in> set (spec_word_starts (dropWhile is_word_char p))"
      from True have "\<not> is_line_end c" "c \<noteq> CHAR_SPACE"
        by (simp_all add: is_word_char_def)
      from "2.IH"(2) [OF this q] obtain pre where "dropWhile is_word_char p = pre @ q" ..
      then have "c # p = (c # takeWhile is_word_char p @ pre) @ q"
        by (metis append_Cons append_assoc takeWhile_dropWhile_id)
      then show ?thesis ..
    qed
  next
    case False
    show ?thesis
    proof (cases "c = CHAR_SPACE")
      case True
      with 2 have "q \<in> set (spec_word_starts p)" by (simp add: is_line_end_def)
      with "2.IH"(1) True obtain pre where "p = pre @ q"
        by (auto simp: is_line_end_def)
      then have "c # p = (c # pre) @ q" by simp
      then show ?thesis ..
    next
      case ns: False
      with False 2 show ?thesis
        by (simp add: spec_word_starts_end del: spec_word_starts.simps)
    qed
  qed
qed

lemma cli_get_parameter_spec:
  "cli_get_parameter (Some line) n (Some old) =
     (let ws = spec_word_starts line;
          k = (if deref line = CHAR_SPACE then n - 1 else n)
      in if 1 \<le> n \<and> nat k < length ws
         then (Some (ws ! nat k), Some (int (length (spec_word_at (ws ! nat k)))))
         else (None, Some 0))"
proof (cases "1 \<le> n")
  case False
  then show ?thesis
    by (simp add: cli_get_parameter_def get_parameter_loop_nonpos Let_def)
next
  case True
  then have lt: "0 < n" by simp
  have ws: "spec_word_starts line =
     (if is_word_char (deref line) then line # spec_word_starts (skip_word line)
      else if deref line = CHAR_SPACE then spec_word_starts (skip_word line) else [])"
  proof (cases line)
    case Nil
    then show ?thesis by simp
  next
    case (Cons c l)
    then show ?thesis
      using spec_word_starts_deref [of line]
      by (auto simp: is_word_char_iff)
  qed
  have stop: "spec_word_starts (skip_word line) = []"
    if "\<not> is_word_char (deref line)" "deref line \<noteq> CHAR_SPACE"
    using that by (cases line) (auto simp: spec_word_starts_end is_word_char_iff
        simp del: spec_word_starts.simps(2))
  show ?thesis
    using True ws stop get_parameter_loop_words [OF lt, of line]
    by (cases "is_word_char (deref line)"; cases "deref line = CHAR_SPACE")
       (auto simp: cli_get_parameter_def Let_def nat_diff_distrib)
qed

text \<open>
  C8 (as amended). With a 1-based index \<open>n\<close>, \<^verbatim>\<open>cli_get_parameter\<close> returns a pointer
  to the start of a word of the line and stores that word's length; it returns
  \<^verbatim>\<open>NULL\<close> and stores 0 when the line ends (NUL, carriage return or line feed) before
  that word exists, or when \<open>n\<close> is 0 or negative. On a line that does not begin with a
  space the word is the \<open>n\<close>-th word after the first one (the command token); on a line
  that begins with a space it is the \<open>n\<close>-th word of the line, so index 1 yields the
  command token itself. A returned pointer points into the line.
\<close>

theorem cli_get_parameter_words:
  "cli_get_parameter (Some line) n (Some old) =
     (let ws = spec_word_starts line;
          k = (if deref line = CHAR_SPACE then n - 1 else n)
      in if 1 \<le> n \<and> nat k < length ws
         then (Some (ws ! nat k), Some (int (length (spec_word_at (ws ! nat k)))))
         else (None, Some 0))
   \<and> (\<forall>p. fst (cli_get_parameter (Some line) n (Some old)) = Some p
          \<longrightarrow> (\<exists>pre. line = pre @ p))"
proof
  show "cli_get_parameter (Some line) n (Some old) =
     (let ws = spec_word_starts line;
          k = (if deref line = CHAR_SPACE then n - 1 else n)
      in if 1 \<le> n \<and> nat k < length ws
         then (Some (ws ! nat k), Some (int (length (spec_word_at (ws ! nat k)))))
         else (None, Some 0))"
    by (rule cli_get_parameter_spec)
  show "\<forall>p. fst (cli_get_parameter (Some line) n (Some old)) = Some p
          \<longrightarrow> (\<exists>pre. line = pre @ p)"
  proof (intro allI impI)
    fix p
    assume "fst (cli_get_parameter (Some line) n (Some old)) = Some p"
    then have "p \<in> set (spec_word_starts line)"
      by (auto simp: cli_get_parameter_spec [of line n old] Let_def split: if_splits)
    then show "\<exists>pre. line = pre @ p"
      by (rule spec_word_starts_suffix)
  qed
qed

lemmas word_eval =
  spec_words_def spec_word_at_def is_line_end_def is_word_char_def

theorem cli_get_parameter_words_witness:
  "cli_get_parameter (Some ''set key value'') 1 (Some 0) = (Some ''key value'', Some 3)
   \<and> take 3 ''key value'' = ''key''
   \<and> cli_get_parameter (Some ''set key value'') 2 (Some 0) = (Some ''value'', Some 5)
   \<and> cli_get_parameter (Some ''set key value'') 3 (Some 0) = (None, Some 0)
   \<and> cli_get_parameter (Some ''set key value'') 0 (Some 0) = (None, Some 0)
   \<and> cli_get_parameter (Some ''set key value'') (- 1) (Some 0) = (None, Some 0)"
  using cli_get_parameter_words [of "''set key value''" 1 0]
    cli_get_parameter_words [of "''set key value''" 2 0]
    cli_get_parameter_words [of "''set key value''" 3 0]
    cli_get_parameter_words [of "''set key value''" 0 0]
    cli_get_parameter_words [of "''set key value''" "- 1" 0]
  by (simp add: word_eval)

text \<open>
  The claim as first stated fails on a line that begins with a space: parameter 1 of
  \<open>'' set key''\<close> is the command token \<open>set\<close>, not \<open>key\<close>.
\<close>

theorem cli_get_parameter_leading_space:
  "cli_get_parameter (Some '' set key'') 1 (Some 0) = (Some ''set key'', Some 3)
   \<and> spec_words '' set key'' = [''set'', ''key'']"
  by (simp add: cli_get_parameter_spec word_eval)

section \<open>Registry\<close>

text \<open>
  C9. In a registry with \<open>0 \<le> g_command_count \<le> CLI_MAX_COMMANDS\<close>,
  \<^verbatim>\<open>cli_register_command\<close> fails exactly when the descriptor pointer is \<^verbatim>\<open>NULL\<close> or
  the registry is full, and a failed call changes nothing. A successful call returns
  \<open>CLI_TRUE\<close>, copies the descriptor into slot \<open>g_command_count\<close>, increments the count
  and leaves every other slot, the array's size and the rest of the state as they were.
\<close>

theorem cli_register_command_contract:
  assumes "0 \<le> g_command_count s"
    and "g_command_count s \<le> int CLI_MAX_COMMANDS"
    and "length (g_commands_array s) = CLI_MAX_COMMANDS"
  shows "((fst (cli_register_command s p) = CLI_FALSE)
           = (p = None \<or> g_command_count s = int CLI_MAX_COMMANDS))
    \<and> (fst (cli_register_command s p) = CLI_FALSE \<longrightarrow> snd (cli_register_command s p) = s)
    \<and> (fst (cli_register_command s p) \<noteq> CLI_FALSE \<longrightarrow>
           fst (cli_register_command s p) = CLI_TRUE
           \<and> Some (g_commands_array (snd (cli_register_command s p)) ! nat (g_command_count s)) = p
           \<and> g_command_count (snd (cli_register_command s p)) = g_command_count s + 1
           \<and> length (g_commands_array (snd (cli_register_command s p))) = CLI_MAX_COMMANDS
           \<and> (\<forall>j. j \<noteq> nat (g_command_count s) \<longrightarrow>
                 g_commands_array (snd (cli_register_command s p)) ! j = g_commands_array s ! j)
           \<and> command_index (snd (cli_register_command s p)) = command_index s
           \<and> handler_state (snd (cli_register_command s p)) = handler_state s)"
  using assms
  by (auto simp: cli_register_command_def CLI_FALSE_def CLI_TRUE_def CLI_MAX_COMMANDS_def
      split: option.splits)

theorem cli_register_command_contract_witness:
  "cli_register_command (cli_init (initial_state ())) (Some g_get_command)
     = (CLI_TRUE,
        (cli_init (initial_state ()))
          \<lparr>g_commands_array := (g_commands_array (cli_init (initial_state ())))[3 := g_get_command],
           g_command_count := 4\<rparr>)
   \<and> g_commands_array (snd (cli_register_command (cli_init (initial_state ())) (Some g_get_command))) ! 1
       = g_set_command"
  using cli_register_command_contract [of "cli_init (initial_state ())" "Some g_get_command"]
  by (simp add: cli_init_def initial_state_def cli_register_command_def CLI_MAX_COMMANDS_def
      CLI_TRUE_def CLI_FALSE_def)


section \<open>Dispatcher\<close>

subsection \<open>The search loop\<close>

lemma entry_test_iff:
  "((peek line (strlen name) = CHAR_SPACE
      \<or> peek line (strlen name) = CHAR_NULL
      \<or> peek line (strlen name) = CHAR_CARRIAGE_RET
      \<or> peek line (strlen name) = CHAR_NEWLINE)
     \<and> strncmp line name (strlen name) = 0)
   = spec_matches (c_str name) line"
proof -
  have "take (strlen name) (c_str line) = c_str name
          \<longleftrightarrow> take (strlen name) line = c_str name"
    using take_c_str_eq_iff [OF c_str_no_nul, of name line] by (simp add: strlen_def)
  then show ?thesis
    by (auto simp: spec_matches_def strncmp_zero_iff strlen_def)
qed

lemma scan_commands_find:
  "j \<le> n \<Longrightarrow>
   scan_commands arr (int n) line (int j) =
     (case List.find (\<lambda>i. spec_matches (c_str (p_command (arr ! i))) line) [j..<n] of
        None \<Rightarrow> (int n, CLI_PASS)
      | Some i \<Rightarrow> (int i, if arity_ok (arr ! i) line then CLI_PASS else CLI_FALSE))"
proof (induction "n - j" arbitrary: j)
  case 0
  then have "j = n" by simp
  then show ?case
    by (subst scan_commands.simps) simp
next
  case (Suc k)
  then have lt: "j < n" and step: "k = n - Suc j" and le: "Suc j \<le> n" by simp_all
  have ih: "scan_commands arr (int n) line (int j + 1) =
     (case List.find (\<lambda>i. spec_matches (c_str (p_command (arr ! i))) line) [Suc j..<n] of
        None \<Rightarrow> (int n, CLI_PASS)
      | Some i \<Rightarrow> (int i, if arity_ok (arr ! i) line then CLI_PASS else CLI_FALSE))"
    using Suc.hyps(1) [OF step le] by (simp add: add.commute)
  show ?case
    using lt
    by (subst scan_commands.simps)
       (auto simp: Let_def entry_test_iff upt_conv_Cons ih arity_ok_def)
qed

text \<open>
  What lies after a NUL byte of the input does not influence the search: the read of
  \<^verbatim>\<open>p_command_input[command_length]\<close> may fall behind the terminator when the name is
  longer than the line, but then \<^verbatim>\<open>strncmp\<close> fails whatever that byte is.
\<close>

lemma count_loop_stops_at_nul:
  "count_loop (line @ CHAR_NULL # junk) pc ps = count_loop line pc ps"
  by (induction line arbitrary: pc ps) auto

lemma spec_matches_stops_at_nul:
  assumes "CHAR_NULL \<notin> set name"
  shows "spec_matches name (line @ CHAR_NULL # junk) = spec_matches name line"
proof -
  consider (short) "length name < length line" | (same) "length name = length line"
    | (long) "length line < length name"
    by arith
  then show ?thesis
  proof cases
    case short
    then show ?thesis
      by (simp add: spec_matches_def peek_def nth_append)
  next
    case same
    then show ?thesis
      by (simp add: spec_matches_def peek_def nth_append)
  next
    case long
    have "take (length name) line \<noteq> name"
    proof
      assume "take (length name) line = name"
      then have "length (take (length name) line) = length name" by simp
      with long show False by simp
    qed
    moreover have "take (length name) (line @ CHAR_NULL # junk) \<noteq> name"
    proof
      assume eq: "take (length name) (line @ CHAR_NULL # junk) = name"
      have "(take (length name) (line @ CHAR_NULL # junk)) ! length line = CHAR_NULL"
        using long by (simp add: nth_append)
      with eq long have "name ! length line = CHAR_NULL" by simp
      moreover have "name ! length line \<in> set name"
        using long by (rule nth_mem)
      ultimately show False
        using assms by simp
    qed
    ultimately show ?thesis
      by (simp add: spec_matches_def)
  qed
qed

lemma arity_ok_stops_at_nul:
  "arity_ok e (line @ CHAR_NULL # junk) = arity_ok e line"
  by (simp add: arity_ok_def cli_get_parameter_count_def count_loop_stops_at_nul)

lemma scan_commands_stops_at_nul:
  "j \<le> n \<Longrightarrow>
   scan_commands arr (int n) (line @ CHAR_NULL # junk) (int j)
     = scan_commands arr (int n) line (int j)"
  by (simp add: scan_commands_find spec_matches_stops_at_nul c_str_no_nul
      arity_ok_stops_at_nul cong: option.case_cong)

text \<open>
  C6. The search loop stops at the first registered entry, in registration order, for
  which the line's prefix equals the entry's name and the character right after the
  prefix is a space, NUL, carriage return or line feed; when no entry qualifies it ends
  with the index equal to the number of registered entries.
\<close>

theorem scan_commands_first_match:
  "fst (scan_commands arr (int cnt) line 0) =
     (case spec_first_match arr cnt line of Some i \<Rightarrow> int i | None \<Rightarrow> int cnt)"
  using scan_commands_find [of 0 cnt arr line]
  by (simp add: spec_first_match_def split: option.splits)

lemma booted_eq:
  "booted =
     \<lparr>g_commands_array =
        [g_help_command, g_set_command, g_get_command, zero_slot, zero_slot, zero_slot,
         zero_slot, zero_slot, zero_slot, zero_slot],
      g_command_count = 3, command_index = 0, handler_state = ()\<rparr>"
  by (simp add: booted_def cli_init_def initial_state_def cli_register_command_def
      CLI_MAX_COMMANDS_def eval_nat_numeral)

lemmas match_eval =
  spec_first_match_def spec_matches_def peek_def c_str_def upt_rec
  g_help_command_def g_set_command_def g_get_command_def

theorem scan_commands_first_match_witness:
  "fst (scan_commands (g_commands_array booted) 3 ''sett'' 0) = 3
   \<and> fst (scan_commands (g_commands_array booted) 3 ''set a b'' 0) = 1
   \<and> fst (scan_commands ((g_commands_array booted)[2 := g_set_command]) 3 ''set a b'' 0) = 1
   \<and> fst (scan_commands (g_commands_array booted) 3 (''get'' @ [CHAR_CARRIAGE_RET]) 0) = 2"
  using scan_commands_first_match [of "g_commands_array booted" 3 "''sett''"]
    scan_commands_first_match [of "g_commands_array booted" 3 "''set a b''"]
    scan_commands_first_match [of "(g_commands_array booted)[2 := g_set_command]" 3 "''set a b''"]
    scan_commands_first_match [of "g_commands_array booted" 3 "''get'' @ [CHAR_CARRIAGE_RET]"]
  by (simp add: booted_eq match_eval)

subsection \<open>One call of the dispatcher\<close>

lemma spec_first_match_less: "spec_first_match arr n line = Some i \<Longrightarrow> i < n"
  by (auto simp: spec_first_match_def find_Some_iff)

lemma cli_process_command_idle:
  assumes "command_index s = 0" and "g_command_count s = int n"
  shows "cli_process_command s (Some line) (Some buf) len =
     (case spec_first_match (g_commands_array s) n line of
        None \<Rightarrow>
          (CLI_FALSE, Some (strncpy buf CLI_MSG_NOT_RECOGNIZED len), s\<lparr>command_index := int n\<rparr>)
      | Some i \<Rightarrow>
          if arity_ok (g_commands_array s ! i) line then
            (case call_interpreter s (p_command_interpreter (g_commands_array s ! i)) buf len line of
               (r, b, e) \<Rightarrow>
                 (r, b, s\<lparr>command_index := (if r = CLI_FALSE then 0 else int i),
                          handler_state := e\<rparr>))
          else
            (CLI_FALSE, Some (strncpy buf CLI_MSG_INCORRECT_PARAMS len),
             s\<lparr>command_index := int i\<rparr>))"
proof (cases "spec_first_match (g_commands_array s) n line")
  case None
  then have "scan_commands (g_commands_array s) (int n) line 0 = (int n, CLI_PASS)"
    using scan_commands_find [of 0 n "g_commands_array s" line]
    by (simp add: spec_first_match_def)
  with assms None show ?thesis
    by (simp add: cli_process_command_def CLI_FALSE_def CLI_PASS_def)
next
  case (Some i)
  then have "scan_commands (g_commands_array s) (int n) line 0 =
      (int i, if arity_ok (g_commands_array s ! i) line then CLI_PASS else CLI_FALSE)"
    using scan_commands_find [of 0 n "g_commands_array s" line]
    by (simp add: spec_first_match_def)
  with assms Some spec_first_match_less [OF Some] show ?thesis
    by (simp add: cli_process_command_def CLI_FALSE_def CLI_PASS_def)
qed

lemma cli_process_command_continue:
  assumes "command_index s \<noteq> 0"
  shows "cli_process_command s (Some line) (Some buf) len =
     (if command_index s < g_command_count s then
        (case call_interpreter s
                (p_command_interpreter (g_commands_array s ! nat (command_index s))) buf len line of
           (r, b, e) \<Rightarrow>
             (r, b, s\<lparr>command_index := (if r = CLI_FALSE then 0 else command_index s),
                      handler_state := e\<rparr>))
      else
        (CLI_FALSE, Some (strncpy buf CLI_MSG_NOT_RECOGNIZED len), s))"
  using assms
  by (simp add: cli_process_command_def CLI_FALSE_def CLI_PASS_def)

subsection \<open>The two error messages\<close>

text \<open>
  C5 (as amended). In a call entered with \<open>command_index = 0\<close>: when the first matching
  entry declares a fixed arity (\<open>\<ge> 0\<close>) that differs from the tokenizer's parameter count
  of the whole line, \<^verbatim>\<open>cli_process_command\<close> copies
  \<open>CLI_MSG_INCORRECT_PARAMS\<close> into the output region with
  \<^verbatim>\<open>strncpy(..., write_buffer_len)\<close> and does not call the handler (the state changes
  in \<open>command_index\<close> only); when no entry matches it copies \<open>CLI_MSG_NOT_RECOGNIZED\<close> in
  the same way. The region receives the first \<open>write_buffer_len\<close> bytes of the
  NUL-padded message and nothing after them: the verbatim message, terminated, whenever
  \<open>write_buffer_len\<close> exceeds its length (66 and 58 characters), and a cut message
  without terminator otherwise. Both calls return \<open>CLI_FALSE\<close>.
\<close>

theorem cli_process_command_error_messages:
  assumes "command_index s = 0" and "g_command_count s = int n"
  shows
    "(spec_first_match (g_commands_array s) n line = Some i
        \<and> \<not> arity_ok (g_commands_array s ! i) line \<longrightarrow>
      (\<exists>b. cli_process_command s (Some line) (Some buf) len
              = (CLI_FALSE, Some b, s\<lparr>command_index := int i\<rparr>)
          \<and> take len b = take len (CLI_MSG_INCORRECT_PARAMS @ replicate len CHAR_NULL)
          \<and> drop len b = drop len buf
          \<and> length b = max (length buf) len
          \<and> (length CLI_MSG_INCORRECT_PARAMS < len \<longrightarrow> c_str b = CLI_MSG_INCORRECT_PARAMS)))
   \<and> (spec_first_match (g_commands_array s) n line = None \<longrightarrow>
      (\<exists>b. cli_process_command s (Some line) (Some buf) len
              = (CLI_FALSE, Some b, s\<lparr>command_index := int n\<rparr>)
          \<and> take len b = take len (CLI_MSG_NOT_RECOGNIZED @ replicate len CHAR_NULL)
          \<and> drop len b = drop len buf
          \<and> length b = max (length buf) len
          \<and> (length CLI_MSG_NOT_RECOGNIZED < len \<longrightarrow> c_str b = CLI_MSG_NOT_RECOGNIZED)))"
proof (intro conjI impI)
  assume "spec_first_match (g_commands_array s) n line = Some i
      \<and> \<not> arity_ok (g_commands_array s ! i) line"
  then have "cli_process_command s (Some line) (Some buf) len
      = (CLI_FALSE, Some (strncpy buf CLI_MSG_INCORRECT_PARAMS len), s\<lparr>command_index := int i\<rparr>)"
    by (simp add: cli_process_command_idle [OF assms])
  then show "\<exists>b. cli_process_command s (Some line) (Some buf) len
              = (CLI_FALSE, Some b, s\<lparr>command_index := int i\<rparr>)
          \<and> take len b = take len (CLI_MSG_INCORRECT_PARAMS @ replicate len CHAR_NULL)
          \<and> drop len b = drop len buf
          \<and> length b = max (length buf) len
          \<and> (length CLI_MSG_INCORRECT_PARAMS < len \<longrightarrow> c_str b = CLI_MSG_INCORRECT_PARAMS)"
    using strncpy_msg [OF msg_no_nul(1), of len buf] by blast
next
  assume "spec_first_match (g_commands_array s) n line = None"
  then have "cli_process_command s (Some line) (Some buf) len
      = (CLI_FALSE, Some (strncpy buf CLI_MSG_NOT_RECOGNIZED len), s\<lparr>command_index := int n\<rparr>)"
    by (simp add: cli_process_command_idle [OF assms])
  then show "\<exists>b. cli_process_command s (Some line) (Some buf) len
              = (CLI_FALSE, Some b, s\<lparr>command_index := int n\<rparr>)
          \<and> take len b = take len (CLI_MSG_NOT_RECOGNIZED @ replicate len CHAR_NULL)
          \<and> drop len b = drop len buf
          \<and> length b = max (length buf) len
          \<and> (length CLI_MSG_NOT_RECOGNIZED < len \<longrightarrow> c_str b = CLI_MSG_NOT_RECOGNIZED)"
    using strncpy_msg [OF msg_no_nul(2), of len buf] by blast
qed

lemma booted_first_match:
  "spec_first_match (g_commands_array booted) 3 ''frobnicate'' = None"
  "spec_first_match (g_commands_array booted) 3 ''set a'' = Some 1"
  "spec_first_match (g_commands_array booted) 3 ''set a b'' = Some 1"
  "spec_first_match (g_commands_array booted) 3 ''help'' = Some 0"
  by (simp_all add: booted_eq match_eval)

lemma booted_arity:
  "\<not> arity_ok (g_commands_array booted ! Suc 0) ''set a''"
  "arity_ok (g_commands_array booted ! Suc 0) ''set a b''"
  "arity_ok (g_commands_array booted ! 0) ''help''"
  by (simp_all add: booted_eq arity_ok_def g_set_command_def g_help_command_def
      cli_get_parameter_count_def CLI_FALSE_def CLI_PASS_def)

lemma booted_fields [simp]:
  "command_index booted = 0" "g_command_count booted = 3" "handler_state booted = ()"
  by (simp_all add: booted_eq)

theorem cli_process_command_error_messages_witness:
  "fst (cli_process_command booted (Some ''set a'') (Some (replicate 80 CHAR_NULL)) 80) = CLI_FALSE
   \<and> map_option c_str
        (fst (snd (cli_process_command booted (Some ''set a'') (Some (replicate 80 CHAR_NULL)) 80)))
       = Some CLI_MSG_INCORRECT_PARAMS
   \<and> snd (snd (cli_process_command booted (Some ''set a'') (Some (replicate 80 CHAR_NULL)) 80))
       = booted\<lparr>command_index := 1\<rparr>
   \<and> fst (cli_process_command booted (Some ''frobnicate'') (Some (replicate 80 CHAR_NULL)) 80)
       = CLI_FALSE
   \<and> map_option c_str
        (fst (snd (cli_process_command booted (Some ''frobnicate'')
                     (Some (replicate 80 CHAR_NULL)) 80)))
       = Some CLI_MSG_NOT_RECOGNIZED"
  using cli_process_command_error_messages
          [of booted 3 "''set a''" 1 "replicate 80 CHAR_NULL" 80]
        cli_process_command_error_messages
          [of booted 3 "''frobnicate''" 0 "replicate 80 CHAR_NULL" 80]
  by (auto simp: booted_first_match booted_arity)

text \<open>
  The claim as first stated fails for a small capacity: with 10 bytes the region holds
  the first 10 characters of the message only.
\<close>

theorem cli_process_command_message_truncated:
  "cli_process_command booted (Some ''frobnicate'') (Some (replicate 10 CHAR_NULL)) 10
     = (CLI_FALSE, Some ''Command no'', booted\<lparr>command_index := 3\<rparr>)"
  by (simp add: cli_process_command_idle [of booted 3] booted_first_match strncpy_eq
      CLI_MSG_NOT_RECOGNIZED_def c_str_def)

subsection \<open>The cursor after an error\<close>

text \<open>
  C1 (fails on the code). After \<^verbatim>\<open>cli_init\<close>, the unregistered line \<open>frobnicate\<close>
  returns \<open>CLI_FALSE\<close> and leaves \<open>command_index = 3\<close>, the number of registered
  commands, not 0. The next call therefore skips the search: the line \<open>help\<close> is
  answered with the not-recognized message again, and so is every later line. After the
  arity mismatch of \<open>set a\<close> the cursor is left at 1, the slot of \<open>set\<close>. Only the
  branch that calls a handler resets \<open>command_index\<close>.
\<close>

theorem cursor_not_reset_after_error:
  "cli_process_command booted (Some ''frobnicate'') (Some buf) len
     = (CLI_FALSE, Some (strncpy buf CLI_MSG_NOT_RECOGNIZED len), booted\<lparr>command_index := 3\<rparr>)
   \<and> cli_process_command (booted\<lparr>command_index := 3\<rparr>) (Some ''help'') (Some buf) len
     = (CLI_FALSE, Some (strncpy buf CLI_MSG_NOT_RECOGNIZED len), booted\<lparr>command_index := 3\<rparr>)
   \<and> cli_process_command booted (Some ''set a'') (Some buf) len
     = (CLI_FALSE, Some (strncpy buf CLI_MSG_INCORRECT_PARAMS len), booted\<lparr>command_index := 1\<rparr>)"
  by (simp add: cli_process_command_idle [of booted 3] booted_first_match booted_arity
      cli_process_command_continue)

subsection \<open>A handler that reports more output pending\<close>

text \<open>
  In a slot other than 0 a pending handler is re-entered: the call that found it leaves
  the cursor at its slot, and the next call, whatever its line, goes straight to that
  handler, with no search and no arity check.
\<close>

lemma pending_handler_in_later_slot_reentered:
  assumes "command_index s = 0" and "g_command_count s = int n"
    and "spec_first_match (g_commands_array s) n line = Some i" and "0 < i"
    and "arity_ok (g_commands_array s ! i) line"
    and "call_interpreter s (p_command_interpreter (g_commands_array s ! i)) buf len line
           = (r, b, e)"
    and "r \<noteq> CLI_FALSE"
    and "s' = s\<lparr>command_index := int i, handler_state := e\<rparr>"
  shows "cli_process_command s (Some line) (Some buf) len = (r, b, s')
    \<and> cli_process_command s' (Some line') (Some buf') len' =
        (case call_interpreter s' (p_command_interpreter (g_commands_array s ! i))
                buf' len' line' of
           (r', b', e') \<Rightarrow>
             (r', b', s'\<lparr>command_index := (if r' = CLI_FALSE then 0 else int i),
                         handler_state := e'\<rparr>))"
proof -
  have "i < n" using assms(3) by (rule spec_first_match_less)
  then show ?thesis
    using assms
    by (auto simp: cli_process_command_idle [OF assms(1,2)] cli_process_command_continue
        split: prod.splits)
qed

lemma stream_first_eq:
  "stream_first =
     \<lparr>g_commands_array =
        [stream_command, zero_slot, zero_slot, zero_slot, zero_slot, zero_slot,
         zero_slot, zero_slot, zero_slot, zero_slot],
      g_command_count = 1, command_index = 0, handler_state = ()\<rparr>"
  by (simp add: stream_first_def initial_state_def cli_register_command_def
      CLI_MAX_COMMANDS_def eval_nat_numeral)

text \<open>
  C3 (fails on the code). With the pending handler in slot 0 the cursor stays 0, which
  also means "no command in progress": the next call searches the registry again. The
  line \<open>more\<close> is answered with the not-recognized message and the handler is not
  called a second time.
\<close>

theorem pending_handler_in_slot_0_not_reentered:
  "cli_process_command stream_first (Some ''stream'') (Some buf) len
     = (CLI_TRUE, Some buf, stream_first)
   \<and> command_index stream_first = 0
   \<and> cli_process_command stream_first (Some ''more'') (Some buf) len
     = (CLI_FALSE, Some (strncpy buf CLI_MSG_NOT_RECOGNIZED len),
        stream_first\<lparr>command_index := 1\<rparr>)"
proof -
  have m: "spec_first_match (g_commands_array stream_first) (Suc 0) ''stream'' = Some 0"
    "spec_first_match (g_commands_array stream_first) (Suc 0) ''more'' = None"
    by (simp_all add: stream_first_eq stream_command_def spec_first_match_def
        spec_matches_def peek_def c_str_def)
  have a: "arity_ok (g_commands_array stream_first ! 0) ''stream''"
    by (simp add: stream_first_eq stream_command_def arity_ok_def)
  have f: "command_index stream_first = 0" "g_command_count stream_first = 1"
    by (simp_all add: stream_first_eq)
  have c: "call_interpreter stream_first
             (p_command_interpreter (g_commands_array stream_first ! 0)) buf len ''stream''
           = (CLI_TRUE, Some buf, ())"
    by (simp add: stream_first_eq stream_command_def call_interpreter_def)
  show ?thesis
    using cli_process_command_idle [of stream_first 1 "''stream''" buf len]
      cli_process_command_idle [of stream_first 1 "''more''" buf len]
    by (simp add: m a f c CLI_TRUE_def CLI_FALSE_def)
qed

section \<open>Built-in handlers\<close>

subsection \<open>The set and get handlers\<close>

lemma spec_word_at_prefix_c_str:
  "take (length (spec_word_at p)) (c_str p) = spec_word_at p"
  by (induction p) (auto simp: spec_word_at_def c_str_Cons is_word_char_iff)

lemma spec_word_at_no_nul: "CHAR_NULL \<notin> set (spec_word_at p)"
  unfolding spec_word_at_def by (induction p) (auto simp: is_word_char_iff)

lemma spec_word_at_length_le: "length (spec_word_at p) \<le> length (c_str p)"
  by (induction p) (auto simp: spec_word_at_def c_str_Cons is_word_char_iff)

lemma c_str_stage_param:
  assumes "length (spec_word_at p) < 50"
  shows "c_str (stage_param p (int (length (spec_word_at p)))) = spec_word_at p"
proof -
  let ?w = "spec_word_at p"
  let ?n = "length ?w"
  obtain k where k: "50 - ?n = Suc k"
    using assms by (cases "50 - ?n") auto
  have "take ?n (c_str p @ replicate ?n CHAR_NULL) = ?w"
    using spec_word_at_prefix_c_str [of p] spec_word_at_length_le [of p] by simp
  then have "strncpy (replicate 50 CHAR_NULL) p ?n = ?w @ replicate (50 - ?n) CHAR_NULL"
    by (simp add: strncpy_eq)
  then have "stage_param p (int ?n) = (?w @ CHAR_NULL # replicate k CHAR_NULL)[?n := CHAR_NULL]"
    by (simp add: stage_param_def k)
  also have "\<dots> = ?w @ CHAR_NULL # replicate k CHAR_NULL"
    by (simp add: list_update_append)
  finally show ?thesis
    by (simp add: c_str_append_nul spec_word_at_no_nul)
qed

lemma sprintf_eq:
  "sprintf dst text = text @ CHAR_NULL # drop (Suc (length text)) dst"
  by (simp add: sprintf_def store_0)

lemma memset_eq: "memset dst c n = replicate n c @ drop n dst"
  by (simp add: memset_def store_0)

lemma cli_set_interpreter_spec:
  "cli_set_interpreter (Some buf) len (Some line) =
     (let ws = spec_word_starts line; j = (if deref line = CHAR_SPACE then 0 else 1)
      in if j + 1 < length ws \<and> length (spec_word_at (ws ! j)) < 50
            \<and> length (spec_word_at (ws ! (j + 1))) < 50
         then (CLI_FALSE,
               Some (sprintf (memset buf CHAR_NULL len)
                 (''Set '' @ spec_word_at (ws ! j) @ '' = '' @ spec_word_at (ws ! (j + 1))
                    @ [CHAR_CARRIAGE_RET, CHAR_NEWLINE])))
         else (CLI_FALSE,
               Some (strncpy (memset buf CHAR_NULL len) CLI_MSG_MISSING_PARAM len)))"
proof -
  let ?ws = "spec_word_starts line"
  let ?j = "if deref line = CHAR_SPACE then 0 else (1::nat)"
  have p1: "cli_get_parameter (Some line) 1 (Some old) =
      (if ?j < length ?ws then (Some (?ws ! ?j), Some (int (length (spec_word_at (?ws ! ?j)))))
       else (None, Some 0))" for old
    by (simp add: cli_get_parameter_spec Let_def)
  have p2: "cli_get_parameter (Some line) 2 (Some old) =
      (if ?j + 1 < length ?ws
       then (Some (?ws ! (?j + 1)), Some (int (length (spec_word_at (?ws ! (?j + 1))))))
       else (None, Some 0))" for old
    by (auto simp: cli_get_parameter_spec Let_def numeral_2_eq_2)
  show ?thesis
    by (simp add: cli_set_interpreter_def p1 p2 Let_def c_str_stage_param)
qed

text \<open>
  C4 (as amended). For a line handed to the set handler, let the key and the value be
  parameters 1 and 2 as \<^verbatim>\<open>cli_get_parameter\<close> finds them (the two words after the command
  token; the first two words when the line begins with a space). When both are present
  and each is at most 49 characters long (\<^verbatim>\<open>param_len < 50\<close>), the C string that
  \<^verbatim>\<open>sprintf\<close> leaves at the start of the output region is exactly
  \<open>Set <key> = <value>\<close> followed by carriage return and line feed. When either is absent or 50 characters or longer, the region receives the first
  \<open>write_buffer_len\<close> bytes of the NUL-padded text \<open>CLI_MSG_MISSING_PARAM\<close>: the whole
  message when \<open>write_buffer_len\<close> exceeds its 26 characters. The handler always
  returns \<open>CLI_FALSE\<close>.
\<close>

theorem cli_set_interpreter_output:
  "\<exists>b. cli_set_interpreter (Some buf) len (Some line) = (CLI_FALSE, Some b)
      \<and> (let ws = spec_words line; j = (if deref line = CHAR_SPACE then 0 else 1)
         in if j + 1 < length ws \<and> length (ws ! j) < 50 \<and> length (ws ! (j + 1)) < 50
            then c_str b
                   = ''Set '' @ ws ! j @ '' = '' @ ws ! (j + 1)
                       @ [CHAR_CARRIAGE_RET, CHAR_NEWLINE]
            else take len b = take len (CLI_MSG_MISSING_PARAM @ replicate len CHAR_NULL)
                 \<and> drop len b = drop len buf
                 \<and> (length CLI_MSG_MISSING_PARAM < len \<longrightarrow> c_str b = CLI_MSG_MISSING_PARAM))"
proof -
  define j :: nat where "j = (if deref line = CHAR_SPACE then 0 else 1)"
  define ws where "ws = spec_word_starts line"
  define k where "k = spec_word_at (ws ! j)"
  define v where "v = spec_word_at (ws ! (j + 1))"
  define fmt where "fmt = ''Set '' @ k @ '' = '' @ v @ [CHAR_CARRIAGE_RET, CHAR_NEWLINE]"
  define b0 where "b0 = memset buf CHAR_NULL len"
  have spec: "cli_set_interpreter (Some buf) len (Some line) =
      (if j + 1 < length ws \<and> length k < 50 \<and> length v < 50
       then (CLI_FALSE, Some (sprintf b0 fmt))
       else (CLI_FALSE, Some (strncpy b0 CLI_MSG_MISSING_PARAM len)))"
    unfolding j_def ws_def k_def v_def fmt_def b0_def
    by (simp add: cli_set_interpreter_spec Let_def)
  have len: "length (spec_words line) = length ws"
    by (simp add: spec_words_def ws_def)
  have nth: "spec_words line ! j = k \<and> spec_words line ! (j + 1) = v" if "j + 1 < length ws"
    using that by (simp add: spec_words_def ws_def k_def v_def)
  have "CHAR_NULL \<notin> set fmt"
    by (simp add: fmt_def k_def v_def spec_word_at_no_nul)
  then have fmt: "c_str (sprintf b0 fmt) = fmt"
    unfolding sprintf_eq by (rule c_str_append_nul)
  have rest: "drop len (strncpy b0 CLI_MSG_MISSING_PARAM len) = drop len buf"
    by (simp add: strncpy_drop memset_eq b0_def)
  note msg = strncpy_msg [OF msg_no_nul(3), of len b0]
  show ?thesis
    unfolding Let_def j_def [symmetric]
  proof (cases "j + 1 < length ws \<and> length k < 50 \<and> length v < 50")
    case True
    have eq: "cli_set_interpreter (Some buf) len (Some line)
        = (CLI_FALSE, Some (sprintf b0 fmt))"
      unfolding spec using True by (rule if_P)
    have yes: "j + 1 < length (spec_words line) \<and> length (spec_words line ! j) < 50
        \<and> length (spec_words line ! (j + 1)) < 50"
      using True nth by (simp add: len)
    have "c_str (sprintf b0 fmt)
        = ''Set '' @ spec_words line ! j @ '' = '' @ spec_words line ! (j + 1)
            @ [CHAR_CARRIAGE_RET, CHAR_NEWLINE]"
      using True nth fmt by (simp add: fmt_def)
    with eq show "\<exists>b. cli_set_interpreter (Some buf) len (Some line) = (CLI_FALSE, Some b)
      \<and> (if j + 1 < length (spec_words line) \<and> length (spec_words line ! j) < 50
             \<and> length (spec_words line ! (j + 1)) < 50
          then c_str b
                 = ''Set '' @ spec_words line ! j @ '' = '' @ spec_words line ! (j + 1)
                     @ [CHAR_CARRIAGE_RET, CHAR_NEWLINE]
          else take len b = take len (CLI_MSG_MISSING_PARAM @ replicate len CHAR_NULL)
               \<and> drop len b = drop len buf
               \<and> (length CLI_MSG_MISSING_PARAM < len \<longrightarrow> c_str b = CLI_MSG_MISSING_PARAM))"
      by (subst if_P [OF yes]) blast
  next
    case False
    have eq: "cli_set_interpreter (Some buf) len (Some line)
        = (CLI_FALSE, Some (strncpy b0 CLI_MSG_MISSING_PARAM len))"
      unfolding spec using False by (rule if_not_P)
    have no: "\<not> (j + 1 < length (spec_words line) \<and> length (spec_words line ! j) < 50
             \<and> length (spec_words line ! (j + 1)) < 50)"
      using False nth by (auto simp: len)
    from eq msg rest
    show "\<exists>b. cli_set_interpreter (Some buf) len (Some line) = (CLI_FALSE, Some b)
      \<and> (if j + 1 < length (spec_words line) \<and> length (spec_words line ! j) < 50
             \<and> length (spec_words line ! (j + 1)) < 50
          then c_str b
                 = ''Set '' @ spec_words line ! j @ '' = '' @ spec_words line ! (j + 1)
                     @ [CHAR_CARRIAGE_RET, CHAR_NEWLINE]
          else take len b = take len (CLI_MSG_MISSING_PARAM @ replicate len CHAR_NULL)
               \<and> drop len b = drop len buf
               \<and> (length CLI_MSG_MISSING_PARAM < len \<longrightarrow> c_str b = CLI_MSG_MISSING_PARAM))"
      by (subst if_not_P [OF no]) blast
  qed
qed

lemma booted_set_a_b:
  "spec_first_match (g_commands_array booted) 3 ''set a b'' = Some 1"
  "arity_ok (g_commands_array booted ! Suc 0) ''set a b''"
  "p_command_interpreter (g_commands_array booted ! Suc 0) = Fn_set"
  by (simp_all add: booted_eq match_eval arity_ok_def
      cli_get_parameter_count_def CLI_FALSE_def CLI_PASS_def)

theorem cli_set_interpreter_output_witness:
  "fst (cli_set_interpreter (Some (replicate 80 CHAR_NULL)) 80 (Some ''set a b'')) = CLI_FALSE
   \<and> map_option c_str
        (snd (cli_set_interpreter (Some (replicate 80 CHAR_NULL)) 80 (Some ''set a b'')))
       = Some (''Set a = b'' @ [CHAR_CARRIAGE_RET, CHAR_NEWLINE])
   \<and> map_option c_str
        (fst (snd (cli_process_command booted (Some ''set a b'')
                     (Some (replicate 80 CHAR_NULL)) 80)))
       = Some (''Set a = b'' @ [CHAR_CARRIAGE_RET, CHAR_NEWLINE])
   \<and> map_option c_str
        (snd (cli_set_interpreter (Some (replicate 80 CHAR_NULL)) 80 (Some ''set a'')))
       = Some CLI_MSG_MISSING_PARAM"
  using cli_set_interpreter_output [of "replicate 80 CHAR_NULL" 80 "''set a b''"]
    cli_set_interpreter_output [of "replicate 80 CHAR_NULL" 80 "''set a''"]
  by (auto simp: word_eval cli_process_command_idle [of booted 3] booted_set_a_b
      call_interpreter_def)

text \<open>
  The claim as first stated fails at both ends. A key of exactly 50 characters does not
  exceed 50 characters, yet it is refused: the staging array holds 49 characters and the
  terminator. And with a capacity of 8 bytes the region holds \<open>Error: M\<close>, not the
  message.
\<close>

theorem cli_set_interpreter_limits:
  "map_option c_str
     (snd (cli_set_interpreter (Some (replicate 80 CHAR_NULL)) 80
             (Some (''set '' @ replicate 50 (CHR ''k'') @ '' v''))))
     = Some CLI_MSG_MISSING_PARAM
   \<and> snd (cli_set_interpreter (Some (replicate 8 CHAR_NULL)) 8 (Some ''set''))
     = Some ''Error: M''"
proof -
  let ?key = "replicate 50 (CHR ''k'')"
  let ?line = "''set '' @ ?key @ '' v''"
  have w: "spec_word_at (?key @ '' v'') = ?key"
    by (simp add: spec_word_at_def is_word_char_def is_line_end_def takeWhile_append)
  have d: "dropWhile is_word_char (?key @ '' v'') = '' v''"
    by (simp add: is_word_char_def is_line_end_def dropWhile_append)
  have k: "spec_word_starts (?key @ '' v'') = [?key @ '' v'', ''v'']"
    using spec_word_starts_deref [of "?key @ '' v''"] d
    by (simp add: skip_word_dropWhile is_word_char_def is_line_end_def eval_nat_numeral)
  have ws: "spec_word_starts ?line = [?line, ?key @ '' v'', ''v'']"
    by (simp add: is_word_char_def is_line_end_def k)
  have "cli_set_interpreter (Some (replicate 80 CHAR_NULL)) 80 (Some ?line)
      = (CLI_FALSE, Some (strncpy (memset (replicate 80 CHAR_NULL) CHAR_NULL 80)
                            CLI_MSG_MISSING_PARAM 80))"
    unfolding cli_set_interpreter_spec Let_def ws
    by (simp add: w)
  moreover have "cli_set_interpreter (Some (replicate 8 CHAR_NULL)) 8 (Some ''set'')
      = (CLI_FALSE, Some ''Error: M'')"
    by (simp add: cli_set_interpreter_spec is_word_char_def is_line_end_def strncpy_eq
        memset_eq CLI_MSG_MISSING_PARAM_def c_str_def)
  ultimately show ?thesis
    by (simp add: strncpy_c_str strlen_def)
qed

lemma cli_get_interpreter_spec:
  "cli_get_interpreter (Some buf) len (Some line) =
     (let ws = spec_word_starts line; j = (if deref line = CHAR_SPACE then 0 else 1)
      in if j < length ws \<and> length (spec_word_at (ws ! j)) < 50
         then (CLI_FALSE,
               Some (sprintf (memset buf CHAR_NULL len)
                 (''Get '' @ spec_word_at (ws ! j) @ '': [value not implemented]''
                    @ [CHAR_CARRIAGE_RET, CHAR_NEWLINE])))
         else (CLI_FALSE,
               Some (strncpy (memset buf CHAR_NULL len) CLI_MSG_MISSING_PARAM len)))"
  by (simp add: cli_get_interpreter_def cli_get_parameter_spec Let_def c_str_stage_param)

subsection \<open>Writes and the capacity of the output region\<close>

text \<open>
  The help handler and the dispatcher's own messages stay within \<open>write_buffer_len\<close>:
  in a region of at least that many bytes the length of the region is unchanged and so
  is every byte from offset \<open>write_buffer_len\<close> on. A command whose line
  \<open>"  <name>\r\n"\<close> would not fit is left out of the help listing.
\<close>

lemma take_strlen: "take (strlen p) p = c_str p"
  unfolding strlen_def c_str_def by (rule takeWhile_eq_take [symmetric])

lemma strlen_le_length: "strlen p \<le> length p"
  unfolding strlen_def c_str_def by (rule length_takeWhile_le)

lemma length_c_str: "length (c_str p) = strlen p"
  by (simp add: strlen_def)

lemma strncat_eq:
  "strncat dst src n =
     c_str dst @ take n (c_str src) @ CHAR_NULL # drop (Suc (strlen dst + min (strlen src) n)) dst"
  using strlen_le_length [of dst]
  by (simp add: strncat_def store_def take_strlen length_c_str)

lemma strlen_strncat: "strlen (strncat dst src n) = strlen dst + min (strlen src) n"
proof -
  have "CHAR_NULL \<notin> set (c_str dst @ take n (c_str src))"
    using c_str_no_nul [of dst] c_str_no_nul [of src] by (auto dest: in_set_takeD)
  then have "c_str (strncat dst src n) = c_str dst @ take n (c_str src)"
    unfolding strncat_eq
    using c_str_append_nul [of "c_str dst @ take n (c_str src)"] by simp
  then show ?thesis
    by (simp add: strlen_def)
qed

lemma length_strncat:
  "length (strncat dst src n) = max (length dst) (Suc (strlen dst + min (strlen src) n))"
  using strlen_le_length [of dst]
  by (simp add: strncat_eq length_c_str)

lemma drop_strncat:
  assumes "Suc (strlen dst + min (strlen src) n) \<le> k"
  shows "drop k (strncat dst src n) = drop k dst"
proof -
  define m where "m = Suc (strlen dst + min (strlen src) n)"
  define front where "front = c_str dst @ take n (c_str src) @ [CHAR_NULL]"
  from assms obtain j where k: "k = m + j"
    unfolding m_def using le_Suc_ex by blast
  have len: "length front = m"
    by (simp add: front_def m_def length_c_str)
  have "strncat dst src n = front @ drop m dst"
    by (simp add: strncat_eq front_def m_def)
  then have "drop k (strncat dst src n) = drop j (drop m dst)"
    by (simp add: k len)
  then show ?thesis
    by (simp add: k add.commute)
qed

lemma help_loop_within_capacity:
  "cur = strlen buf \<Longrightarrow> len \<le> length buf \<Longrightarrow>
   length (help_loop arr cnt len i buf cur) = length buf
   \<and> drop len (help_loop arr cnt len i buf cur) = drop len buf"
proof (induction arr cnt len i buf cur rule: help_loop.induct)
  case (1 arr cnt len i buf cur)
  show ?case
  proof (cases "i < cnt")
    case False
    then show ?thesis
      by (subst (1 2) help_loop.simps) simp
  next
    case lt: True
    show ?thesis
    proof (cases "i = 0")
      case True
      with lt "1.IH"(1) "1.prems" show ?thesis
        by (subst (1 2) help_loop.simps) simp
    next
      case nz: False
      let ?name = "p_command (arr ! nat i)"
      let ?m = "len - cur - 1"
      show ?thesis
      proof (cases "cur + strlen ?name + 5 < len")
        case False
        with lt nz "1.IH"(3) [OF lt nz refl refl] "1.prems" show ?thesis
          by (subst (1 2) help_loop.simps) (simp add: Let_def)
      next
        case fits: True
        define b1 where "b1 = strncat buf ''  '' ?m"
        define b2 where "b2 = strncat b1 ?name ?m"
        define b3 where "b3 = strncat b2 [CHAR_CARRIAGE_RET, CHAR_NEWLINE] ?m"
        have two: "strlen ''  '' = 2" and crlf: "strlen [CHAR_CARRIAGE_RET, CHAR_NEWLINE] = 2"
          by (simp_all add: strlen_def c_str_def)
        have cur: "strlen buf = cur"
          using "1.prems" by simp
        have m1: "min 2 ?m = 2" and m2: "min (strlen ?name) ?m = strlen ?name"
          using fits by simp_all
        have s1: "strlen b1 = cur + 2"
          unfolding b1_def by (simp only: strlen_strncat two m1 cur)
        have s2: "strlen b2 = cur + 2 + strlen ?name"
          unfolding b2_def by (simp only: strlen_strncat s1 m2)
        have l1: "length b1 = max (length buf) (cur + 3)"
          unfolding b1_def by (simp only: length_strncat two m1 cur, (simp)?)
        have l2: "length b2 = max (length buf) (cur + strlen ?name + 3)"
          unfolding b2_def by (simp only: length_strncat s1 m2 l1, (simp)?)
        have l3: "length b3 = max (length buf) (cur + strlen ?name + 5)"
          unfolding b3_def by (simp only: length_strncat s2 crlf m1 l2, (simp)?)
        have e1: "Suc (strlen buf + min (strlen ''  '') ?m) \<le> len"
          using fits by (simp add: two cur)
        have e2: "Suc (strlen b1 + min (strlen ?name) ?m) \<le> len"
          using fits by (simp add: s1)
        have e3: "Suc (strlen b2 + min (strlen [CHAR_CARRIAGE_RET, CHAR_NEWLINE]) ?m) \<le> len"
          using fits by (simp add: s2 crlf)
        have d1: "drop len b1 = drop len buf"
          unfolding b1_def by (rule drop_strncat [OF e1])
        have d2: "drop len b2 = drop len b1"
          unfolding b2_def by (rule drop_strncat [OF e2])
        have d3: "drop len b3 = drop len b2"
          unfolding b3_def by (rule drop_strncat [OF e3])
        have l3': "length b3 = length buf"
          using l3 fits "1.prems"(2) by simp
        have ih: "length (help_loop arr cnt len (i + 1) b3 (strlen b3)) = length b3
            \<and> drop len (help_loop arr cnt len (i + 1) b3 (strlen b3)) = drop len b3"
          using "1.IH"(2) [OF lt nz refl refl fits refl refl refl] l3' "1.prems"(2)
          unfolding b3_def b2_def b1_def by simp
        have step: "help_loop arr cnt len i buf cur
            = help_loop arr cnt len (i + 1) b3 (strlen b3)"
          unfolding b3_def b2_def b1_def
          using lt nz fits by (subst help_loop.simps) (simp add: Let_def)
        show ?thesis
          unfolding step using ih l3' d1 d2 d3 by simp
      qed
    qed
  qed
qed


lemma cli_help_interpreter_within_capacity:
  assumes "len \<le> length buf"
  shows "\<exists>b. cli_help_interpreter s (Some buf) len p = (CLI_FALSE, Some b)
           \<and> length b = length buf \<and> drop len b = drop len buf"
proof -
  define b1 where "b1 = strncpy (memset buf CHAR_NULL len) CLI_MSG_HELP_HEADER len"
  have l: "length b1 = length buf"
    using assms by (simp add: b1_def strncpy_length memset_eq)
  have d: "drop len b1 = drop len buf"
    by (simp add: b1_def strncpy_drop memset_eq)
  have "len \<le> length b1"
    using assms l by simp
  from help_loop_within_capacity [OF refl this] l d show ?thesis
    by (simp add: cli_help_interpreter_def Let_def b1_def)
qed

lemma cli_process_command_own_messages_within_capacity:
  "len \<le> length buf \<Longrightarrow>
   length (strncpy buf CLI_MSG_INCORRECT_PARAMS len) = length buf
   \<and> length (strncpy buf CLI_MSG_NOT_RECOGNIZED len) = length buf"
  by (simp add: strncpy_length)

text \<open>
  C2 (fails on the code). The set and get handlers format their answer with
  \<^verbatim>\<open>sprintf\<close>, which does not look at \<open>write_buffer_len\<close>. With a region of 4 bytes and
  \<open>write_buffer_len = 4\<close>, the line \<open>set a b\<close> makes the set handler write 12 bytes, by
  itself and when called through \<^verbatim>\<open>cli_process_command\<close>; \<open>get a\<close> writes 33.
\<close>

theorem sprintf_writes_past_capacity:
  "cli_set_interpreter (Some (replicate 4 CHAR_NULL)) 4 (Some ''set a b'')
     = (CLI_FALSE, Some (''Set a = b'' @ [CHAR_CARRIAGE_RET, CHAR_NEWLINE, CHAR_NULL]))
   \<and> length (''Set a = b'' @ [CHAR_CARRIAGE_RET, CHAR_NEWLINE, CHAR_NULL]) = 12
   \<and> cli_process_command booted (Some ''set a b'') (Some (replicate 4 CHAR_NULL)) 4
     = (CLI_FALSE, Some (''Set a = b'' @ [CHAR_CARRIAGE_RET, CHAR_NEWLINE, CHAR_NULL]), booted)
   \<and> cli_get_interpreter (Some (replicate 4 CHAR_NULL)) 4 (Some ''get a'')
     = (CLI_FALSE,
        Some (''Get a: [value not implemented]'' @ [CHAR_CARRIAGE_RET, CHAR_NEWLINE, CHAR_NULL]))"
  by (simp add: cli_set_interpreter_spec cli_get_interpreter_spec is_word_char_def
      is_line_end_def spec_word_at_def sprintf_eq memset_eq
      cli_process_command_idle [of booted 3] booted_set_a_b call_interpreter_def
      CLI_FALSE_def)

text \<open>
  The stale cursor of C1 at work: after the arity mismatch of \<open>set a\<close> has left the
  cursor at 1, the line \<open>help\<close> is handed to the set handler, which answers that a
  parameter is missing.
\<close>

lemma stale_cursor_calls_set_handler:
  "cli_process_command (booted\<lparr>command_index := 1\<rparr>) (Some ''help'') (Some buf) len
     = (CLI_FALSE, Some (strncpy (memset buf CHAR_NULL len) CLI_MSG_MISSING_PARAM len), booted)"
  by (simp add: cli_process_command_continue booted_eq call_interpreter_def g_set_command_def
      cli_set_interpreter_spec is_word_char_def is_line_end_def)

end
